theory Spec2Isabelle
  imports Main "HOL-Library.Word" "HOL-Library.AList"
begin

unbundle bit_operations_syntax

section \<open>Shared types\<close>

text \<open>
  Go's \<open>[]byte\<close> is a list of 8-bit words, \<open>uint64\<close> a 64-bit word (its arithmetic
  wraps), \<open>string\<close> a HOL string.
\<close>

type_synonym byte = "8 word"
type_synonym bytes = "byte list"
type_synonym uint32 = "32 word"
type_synonym uint64 = "64 word"

datatype error =
    errInvalidFormat
  | errInvalidProtocolLine
  | errInvalidBodyLength
  | errCrcChecksumMismatch
  | io_EOF
  | ErrInternal
  | ErrSyntax
  | ErrRange
  | Wrap error string
  | OtherError string

text \<open>
  A handler either returns, parks its goroutine on a channel send that cannot proceed, or
  panics. Each outcome carries the state reached at that point.
\<close>

datatype 'a outcome = Returns 'a | Blocks 'a | Panics 'a

fun andThen :: "'a outcome \<Rightarrow> ('a \<Rightarrow> 'a outcome) \<Rightarrow> 'a outcome" where
  "andThen (Returns a) f = f a"
| "andThen (Blocks a) f = Blocks a"
| "andThen (Panics a) f = Panics a"

fun stateOf :: "'a outcome \<Rightarrow> 'a" where
  "stateOf (Returns a) = a"
| "stateOf (Blocks a) = a"
| "stateOf (Panics a) = a"

section \<open>Channels\<close>

text \<open>
  A Go channel seen from the sending side: the elements buffered and not yet received,
  and the number of elements it can take before a send has to wait (\<open>cap\<close>, the
  channel's capacity). A plain send \<open>c <- v\<close> waits when the channel has no room; a send
  inside \<open>select\<close> with a \<open>default\<close> branch is skipped instead.
\<close>

record 'a Chan =
  buf :: "'a list"
  cap :: nat

definition hasRoom :: "'a Chan \<Rightarrow> bool" where
  "hasRoom c = (length (buf c) < cap c)"

definition enqueue :: "'a Chan \<Rightarrow> 'a \<Rightarrow> 'a Chan" where
  "enqueue c v = c\<lparr>buf := buf c @ [v]\<rparr>"

definition makeChan :: "nat \<Rightarrow> 'a Chan" where
  "makeChan n = \<lparr>buf = [], cap = n\<rparr>"

section \<open>The protocol values used by the event queue\<close>

datatype CmdType =
    CmdMessage | CmdReplicate | CmdRawMessage | CmdRead | CmdHead | CmdStats
  | CmdPing | CmdClose | CmdSleep | CmdShutdown | CmdBatch | CmdTail
  | CmdOther nat

datatype RespType = RespOK | RespEOF | RespErr | RespErrClient

text \<open>
  The body of a response: empty, one of the client error messages, or the bytes of a
  snapshot of the counters.
\<close>

datatype RespBody =
    NoBody | ErrRespNoArguments | ErrRespEmptyMessage | ErrRespInvalid
  | StatsBytes "string \<Rightarrow> int"

text \<open>
  An \<open>io.Reader\<close> put on a reader channel: a reader over bytes in memory, or a log file
  behind \<open>io.LimitReader\<close>.
\<close>

datatype Reader = BytesReader bytes | LimitReader string int

record Response =
  Status :: RespType
  ID :: uint64
  Body :: RespBody
  ReaderC :: "nat option"

definition NewResponse :: "RespType \<Rightarrow> Response" where
  "NewResponse status = \<lparr>Status = status, ID = 0, Body = NoBody, ReaderC = None\<rparr>"

definition NewClientErrResponse :: "RespBody \<Rightarrow> Response" where
  "NewClientErrResponse msg = \<lparr>Status = RespErrClient, ID = 0, Body = msg, ReaderC = None\<rparr>"

text \<open>
  A command as the event queue receives it. \<open>Done\<close> is the address of the command's
  done channel. What the handlers do to the command itself (respond on its response
  channel, wait for the ready signal, finish it) is recorded as a list of effects.
\<close>

record Command =
  Name :: CmdType
  Args :: "bytes list"
  ConnID :: string
  Done :: nat

datatype Effect = Respond Response | WaitForReady | Finish | Sleep int

section \<open>The logger behind the event queue\<close>

text \<open>
  \<open>logger.Logger\<close> is an interface; the event queue works with any implementation. It
  is a record of the operations the handlers call, over a logger state \<open>'l\<close>. A write
  and a shutdown return the logger's state afterwards together with the error, if any.
  \<open>Range\<close> yields the iterator as the list of its steps: the error and the log file of
  each step for which \<open>Next\<close> is true.
\<close>

record LogReadableFile =
  fname :: string
  fsize :: int
  flimit :: int

record 'l Logger =
  Write :: "'l \<Rightarrow> bytes \<Rightarrow> 'l \<times> error option"
  SetID :: "'l \<Rightarrow> uint64 \<Rightarrow> 'l"
  Head :: "'l \<Rightarrow> error + uint64"
  Range :: "'l \<Rightarrow> uint64 \<Rightarrow> uint64 \<Rightarrow> error + (error option \<times> LogReadableFile option) list"
  Shutdown :: "'l \<Rightarrow> 'l \<times> error option"

text \<open>
  The helpers of package \<open>protocol\<close> and of the standard library that the handlers call
  and whose code is elsewhere: the log line writer, the number parser, and the
  \<open>%d\<close> scan of \<open>handleSleep\<close>.
\<close>

record 'l Env =
  logger :: "'l Logger"
  WriteLogLine :: "uint64 \<Rightarrow> bytes \<Rightarrow> bytes"
  ParseNumber :: "bytes \<Rightarrow> error + uint64"
  Sscanf_d :: "bytes \<Rightarrow> error + int"

section \<open>The event queue (\<open>events/events.go\<close>)\<close>

record Subscription =
  readerC :: nat
  doneC :: nat

definition newSubscription :: "nat \<Rightarrow> nat \<Rightarrow> Subscription" where
  "newSubscription rc dn = \<lparr>readerC = rc, doneC = dn\<rparr>"

text \<open>
  The state of an event queue, and the channels its handlers send on: \<open>readerCs\<close> and
  \<open>doneCs\<close> map the address of a channel to its contents, \<open>allocC\<close> is the address the
  next \<open>make(chan io.Reader, 1000)\<close> returns. The map of subscriptions is an association
  list; its order is the order in which \<open>range\<close> visits it.
\<close>

record 'l EventQ =
  currID :: uint64
  subscriptions :: "(string \<times> Subscription) list"
  log :: 'l
  Stats :: "string \<Rightarrow> int"
  readerCs :: "nat \<Rightarrow> Reader Chan"
  doneCs :: "nat \<Rightarrow> unit Chan"
  allocC :: nat

definition Incr :: "(string \<Rightarrow> int) \<Rightarrow> string \<Rightarrow> (string \<Rightarrow> int)" where
  "Incr s k = s(k := s k + 1)"

text \<open>A blocking send on a reader channel.\<close>

definition sendReader :: "'l EventQ \<Rightarrow> nat \<Rightarrow> Reader \<Rightarrow> 'l EventQ outcome" where
  "sendReader q c r =
     (if hasRoom (readerCs q c)
      then Returns (q\<lparr>readerCs := (readerCs q)(c := enqueue (readerCs q c) r)\<rparr>)
      else Blocks q)"

definition send :: "'l EventQ \<Rightarrow> Subscription \<Rightarrow> bytes \<Rightarrow> 'l EventQ outcome" where
  "send q subs msg = sendReader q (readerC subs) (BytesReader msg)"

text \<open>\<open>finish\<close> sends on the done channel inside a \<open>select\<close> with a \<open>default\<close>.\<close>

definition finish :: "'l EventQ \<Rightarrow> Subscription \<Rightarrow> 'l EventQ" where
  "finish q subs =
     (if hasRoom (doneCs q (doneC subs))
      then q\<lparr>doneCs := (doneCs q)(doneC subs := enqueue (doneCs q (doneC subs)) ())\<rparr>
      else q)"

fun sendMsgs :: "'l EventQ \<Rightarrow> Subscription \<Rightarrow> bytes list \<Rightarrow> 'l EventQ outcome" where
  "sendMsgs q subs [] = Returns q"
| "sendMsgs q subs (m # ms) = andThen (send q subs m) (\<lambda>q'. sendMsgs q' subs ms)"

fun publishTo :: "'l EventQ \<Rightarrow> (string \<times> Subscription) list \<Rightarrow> bytes list \<Rightarrow> 'l EventQ outcome" where
  "publishTo q [] msgs = Returns q"
| "publishTo q (s # ss) msgs = andThen (sendMsgs q (snd s) msgs) (\<lambda>q'. publishTo q' ss msgs)"

definition publishMessages :: "'l EventQ \<Rightarrow> bytes list \<Rightarrow> 'l EventQ outcome" where
  "publishMessages q msgs = publishTo q (subscriptions q) msgs"


subsection \<open>Handlers\<close>

text \<open>
  A handler's result: the queue afterwards and the effects on the command, in order.
\<close>

type_synonym 'l cfg = "'l EventQ \<times> Effect list"

fun mapOutcome :: "('a \<Rightarrow> 'b) \<Rightarrow> 'a outcome \<Rightarrow> 'b outcome" where
  "mapOutcome f (Returns a) = Returns (f a)"
| "mapOutcome f (Blocks a) = Blocks (f a)"
| "mapOutcome f (Panics a) = Panics (f a)"

definition onQ :: "('l EventQ \<Rightarrow> 'l EventQ outcome) \<Rightarrow> 'l cfg \<Rightarrow> 'l cfg outcome" where
  "onQ f s = mapOutcome (\<lambda>q'. (q', snd s)) (f (fst s))"

definition emit :: "Effect \<Rightarrow> 'l cfg \<Rightarrow> 'l cfg outcome" where
  "emit e s = Returns (fst s, snd s @ [e])"

text \<open>
  The loop of \<open>handleMsg\<close> over the arguments: the logger's state afterwards, and either
  the response that rejects the command or the last id and the lines written.
\<close>

fun handleMsg_loop ::
  "'l Env \<Rightarrow> bytes list \<Rightarrow> 'l \<Rightarrow> uint64 \<Rightarrow> bytes list \<Rightarrow> 'l \<times> (Response + uint64 \<times> bytes list)" where
  "handleMsg_loop E [] lg i msgs = (lg, Inr (i, msgs))"
| "handleMsg_loop E (msg # rest) lg i msgs =
     (if length msg = 0 then (lg, Inl (NewClientErrResponse ErrRespEmptyMessage))
      else
        let i' = i + 1;
            msgb = WriteLogLine E i' msg;
            msgs' = msgs @ [msgb];
            lg1 = SetID (logger E) lg i';
            w = Write (logger E) lg1 msgb
        in if snd w \<noteq> None then (fst w, Inl (NewResponse RespErr))
           else handleMsg_loop E rest (fst w) i' msgs')"

definition handleMsg :: "'l Env \<Rightarrow> 'l EventQ \<Rightarrow> Command \<Rightarrow> 'l cfg outcome" where
  "handleMsg E q cmd =
     (if length (Args cmd) = 0
      then Returns (q, [Respond (NewClientErrResponse ErrRespNoArguments)])
      else
        case handleMsg_loop E (Args cmd) (log q) (currID q - 1) [] of
          (lg, Inl resp) \<Rightarrow> Returns (q\<lparr>log := lg\<rparr>, [Respond resp])
        | (lg, Inr (i, msgs)) \<Rightarrow>
            let q1 = q\<lparr>log := lg, currID := i + 1, Stats := Incr (Stats q) ''total_writes''\<rparr>;
                resp = (NewResponse RespOK)\<lparr>ID := i\<rparr>
            in mapOutcome (\<lambda>q'. (q', [Respond resp])) (publishMessages q1 msgs))"

text \<open>Decimal digits, as \<open>%d\<close> and \<open>strconv\<close> print them.\<close>

fun FormatUint :: "nat \<Rightarrow> bytes" where
  "FormatUint n =
     (if n < 10 then [of_nat (48 + n)]
      else FormatUint (n div 10) @ [of_nat (48 + n mod 10)])"

declare FormatUint.simps [simp del]

definition FormatInt :: "int \<Rightarrow> bytes" where
  "FormatInt i = (if i < 0 then 0x2D # FormatUint (nat (- i)) else FormatUint (nat i))"

definition CRLF :: bytes where
  "CRLF = [0x0D, 0x0A]"

text \<open>
  Modelled from the spec: \<open>Response.SendEOF\<close> is not among the sources. The spec has
  the reader stream terminated by the line \<open>+EOF\<close>; the model sends a reader over that
  line on the response's reader channel.
\<close>

definition EOFLine :: bytes where
  "EOFLine = [0x2B, 0x45, 0x4F, 0x46] @ CRLF"

definition SendEOF :: "'l EventQ \<Rightarrow> nat \<Rightarrow> 'l EventQ outcome" where
  "SendEOF q c = sendReader q c (BytesReader EOFLine)"

text \<open>\<open>sendChunk\<close> calls a method of the log file first: a nil file panics.\<close>

definition sendChunk :: "'l EventQ \<Rightarrow> LogReadableFile option \<Rightarrow> nat \<Rightarrow> 'l EventQ outcome" where
  "sendChunk q lf c =
     (case lf of
        None \<Rightarrow> Panics q
      | Some f \<Rightarrow>
          let buflen = (if flimit f > 0 then flimit f else fsize f)
          in andThen (sendReader q c (BytesReader (0x2B # FormatInt buflen @ CRLF)))
               (\<lambda>q'. sendReader q' c (LimitReader (fname f) buflen)))"

text \<open>
  The iteration of \<open>doRead\<close>. After an iterator error the source sends the end of the
  stream and finishes the command, and goes on with the chunk of that step.
\<close>

fun doRead_loop ::
  "nat \<Rightarrow> (error option \<times> LogReadableFile option) list \<Rightarrow> 'l cfg \<Rightarrow> 'l cfg outcome" where
  "doRead_loop c [] s = Returns s"
| "doRead_loop c (it # its) s =
     andThen
       (case fst it of
          None \<Rightarrow> Returns s
        | Some e \<Rightarrow> andThen (onQ (\<lambda>q. SendEOF q c) s) (emit Finish))
       (\<lambda>s1. andThen (onQ (\<lambda>q. sendChunk q (snd it) c) s1) (\<lambda>s2. doRead_loop c its s2))"

definition doRead :: "'l Env \<Rightarrow> 'l EventQ \<Rightarrow> Command \<Rightarrow> uint64 \<Rightarrow> uint64 \<Rightarrow> 'l cfg outcome" where
  "doRead E q cmd startID limit =
     (let c = allocC q;
          resp = (NewResponse RespOK)\<lparr>ReaderC := Some c\<rparr>;
          q1 = q\<lparr>readerCs := (readerCs q)(c := makeChan 1000), allocC := Suc c\<rparr>;
          es = [Respond resp, WaitForReady]
      in case (if limit = 0 then Head (logger E) (log q1) else Inr (startID + limit)) of
           Inl err \<Rightarrow> Panics (q1, es)
         | Inr endID \<Rightarrow>
             let q2 = q1\<lparr>subscriptions :=
                        AList.update (ConnID cmd) (newSubscription c (Done cmd)) (subscriptions q1)\<rparr>
             in (case Range (logger E) (log q2) startID endID of
                   Inl err \<Rightarrow> andThen (onQ (\<lambda>q. SendEOF q c) (q2, es)) (emit Finish)
                 | Inr its \<Rightarrow>
                     andThen (doRead_loop c its (q2, es))
                       (\<lambda>s3. if limit \<noteq> 0
                              then andThen (onQ (\<lambda>q. SendEOF q c) s3) (emit Finish)
                              else Returns s3)))"

definition parseReplicate :: "'l Env \<Rightarrow> Command \<Rightarrow> error + uint64" where
  "parseReplicate E cmd =
     (if length (Args cmd) \<noteq> 1 then Inl errInvalidFormat
      else ParseNumber E (Args cmd ! 0))"

definition handleReplicate :: "'l Env \<Rightarrow> 'l EventQ \<Rightarrow> Command \<Rightarrow> 'l cfg outcome" where
  "handleReplicate E q cmd =
     (case parseReplicate E cmd of
        Inl err \<Rightarrow> Returns (q, [Respond (NewResponse RespErr)])
      | Inr startID \<Rightarrow> doRead E q cmd startID 0)"

definition handleRawMsg :: "'l EventQ \<Rightarrow> Command \<Rightarrow> 'l cfg outcome" where
  "handleRawMsg q cmd = Returns (q, [Respond (NewResponse RespOK)])"

definition parseRead :: "'l Env \<Rightarrow> Command \<Rightarrow> error + uint64 \<times> uint64" where
  "parseRead E cmd =
     (if length (Args cmd) \<noteq> 2 then Inl errInvalidFormat
      else case ParseNumber E (Args cmd ! 0) of
             Inl err \<Rightarrow> Inl err
           | Inr startID \<Rightarrow>
               (case ParseNumber E (Args cmd ! 1) of
                  Inl err \<Rightarrow> Inl err
                | Inr limit \<Rightarrow> Inr (startID, limit)))"

definition handleRead :: "'l Env \<Rightarrow> 'l EventQ \<Rightarrow> Command \<Rightarrow> 'l cfg outcome" where
  "handleRead E q cmd =
     (case parseRead E cmd of
        Inl err \<Rightarrow> Returns (q, [Respond (NewClientErrResponse ErrRespInvalid)])
      | Inr (startID, limit) \<Rightarrow>
          doRead E (q\<lparr>Stats := Incr (Stats q) ''total_reads''\<rparr>) cmd startID limit)"

definition handleHead :: "'l Env \<Rightarrow> 'l EventQ \<Rightarrow> Command \<Rightarrow> 'l cfg outcome" where
  "handleHead E q cmd =
     (if length (Args cmd) \<noteq> 0
      then Returns (q, [Respond (NewClientErrResponse ErrRespInvalid)])
      else case Head (logger E) (log q) of
             Inl err \<Rightarrow> Returns (q, [Respond (NewResponse RespErr)])
           | Inr i \<Rightarrow> Returns (q, [Respond ((NewResponse RespOK)\<lparr>ID := i\<rparr>)]))"

definition handleStats :: "'l EventQ \<Rightarrow> Command \<Rightarrow> 'l cfg outcome" where
  "handleStats q cmd =
     (if length (Args cmd) \<noteq> 0
      then Returns (q, [Respond (NewClientErrResponse ErrRespInvalid)])
      else Returns (q, [Respond ((NewResponse RespOK)\<lparr>Body := StatsBytes (Stats q)\<rparr>)]))"

definition handlePing :: "'l EventQ \<Rightarrow> Command \<Rightarrow> 'l cfg outcome" where
  "handlePing q cmd =
     (if length (Args cmd) \<noteq> 0
      then Returns (q, [Respond (NewClientErrResponse ErrRespInvalid)])
      else Returns (q, [Respond (NewResponse RespOK)]))"

definition removeSubscription :: "'l EventQ \<Rightarrow> Command \<Rightarrow> 'l EventQ" where
  "removeSubscription q cmd =
     (let q1 = (case map_of (subscriptions q) (ConnID cmd) of
                  Some sub \<Rightarrow> finish q sub
                | None \<Rightarrow> q)
      in q1\<lparr>subscriptions := AList.delete (ConnID cmd) (subscriptions q1)\<rparr>)"

definition handleClose :: "'l EventQ \<Rightarrow> Command \<Rightarrow> 'l cfg outcome" where
  "handleClose q cmd =
     (if length (Args cmd) \<noteq> 0
      then Returns (q, [Respond (NewClientErrResponse ErrRespInvalid)])
      else Returns (removeSubscription q cmd, [Respond (NewResponse RespOK)]))"

definition handleSleep :: "'l Env \<Rightarrow> 'l EventQ \<Rightarrow> Command \<Rightarrow> 'l cfg outcome" where
  "handleSleep E q cmd =
     (if length (Args cmd) \<noteq> 1
      then Returns (q, [Respond (NewClientErrResponse ErrRespInvalid)])
      else case Sscanf_d E (Args cmd ! 0) of
             Inl err \<Rightarrow> Returns (q, [Respond (NewClientErrResponse ErrRespInvalid)])
           | Inr msecs \<Rightarrow> Returns (q, [Sleep msecs, Respond (NewResponse RespOK)]))"

definition HandleShutdown :: "'l Env \<Rightarrow> 'l EventQ \<Rightarrow> Command \<Rightarrow> 'l EventQ \<times> error option" where
  "HandleShutdown E q cmd =
     (let r = Shutdown (logger E) (log q) in (q\<lparr>log := fst r\<rparr>, snd r))"

text \<open>The body of the loop for one command received from the queue's channel.\<close>

definition dispatch :: "'l Env \<Rightarrow> 'l EventQ \<Rightarrow> Command \<Rightarrow> 'l cfg outcome" where
  "dispatch E q cmd =
     (case Name cmd of
        CmdMessage \<Rightarrow> handleMsg E q cmd
      | CmdReplicate \<Rightarrow> handleReplicate E q cmd
      | CmdRawMessage \<Rightarrow> handleRawMsg q cmd
      | CmdRead \<Rightarrow> handleRead E q cmd
      | CmdHead \<Rightarrow> handleHead E q cmd
      | CmdStats \<Rightarrow> handleStats q cmd
      | CmdPing \<Rightarrow> handlePing q cmd
      | CmdClose \<Rightarrow> handleClose q cmd
      | CmdSleep \<Rightarrow> handleSleep E q cmd
      | CmdShutdown \<Rightarrow>
          (case HandleShutdown E q cmd of
             (q', Some err) \<Rightarrow> Returns (q', [Respond (NewResponse RespErr)])
           | (q', None) \<Rightarrow> Returns (q', [Respond (NewResponse RespOK)]))
      | _ \<Rightarrow> Returns (q, [Respond (NewResponse RespErr)]))"

text \<open>
  The loop, over the commands that arrive before the close signal. It handles them one
  after the other; a handler that waits or panics holds up the commands behind it.
\<close>

fun loop :: "'l Env \<Rightarrow> Command list \<Rightarrow> 'l cfg \<Rightarrow> 'l cfg outcome" where
  "loop E [] s = Returns s"
| "loop E (cmd # cmds) s =
     andThen (mapOutcome (\<lambda>r. (fst r, snd s @ snd r)) (dispatch E (fst s) cmd))
       (\<lambda>s'. loop E cmds s')"


section \<open>The scanner of the log protocol (\<open>protocol/scanner.go\<close>)\<close>

subsection \<open>strconv\<close>

definition isDigit :: "byte \<Rightarrow> bool" where
  "isDigit c = (0x30 \<le> c \<and> c \<le> 0x39)"

text \<open>
  \<open>strconv.ParseUint\<close> in base 10: the loop over the characters stops at the first one
  that is not a digit, or as soon as the value leaves the range. The accumulator is a
  natural number; the source's test for wrap-around is the comparison with \<open>maxVal\<close>.
\<close>

definition cutoff64 :: nat where
  "cutoff64 = (2 ^ 64 - 1) div 10 + 1"

fun ParseUint_loop :: "nat \<Rightarrow> bytes \<Rightarrow> nat \<Rightarrow> error + nat" where
  "ParseUint_loop maxVal [] n = Inr n"
| "ParseUint_loop maxVal (c # cs) n =
     (if \<not> isDigit c then Inl ErrSyntax
      else if n \<ge> cutoff64 then Inl ErrRange
      else let n1 = n * 10 + unat (c - 0x30)
           in if n1 > maxVal then Inl ErrRange else ParseUint_loop maxVal cs n1)"

definition ParseUint :: "bytes \<Rightarrow> nat \<Rightarrow> error + nat" where
  "ParseUint s bitSize = (if s = [] then Inl ErrSyntax else ParseUint_loop (2 ^ bitSize - 1) s 0)"

text \<open>\<open>strconv.ParseInt\<close> in base 10 with 64 bits: an optional sign, then \<open>ParseUint\<close>.\<close>

definition ParseInt :: "bytes \<Rightarrow> error + int" where
  "ParseInt s =
     (if s = [] then Inl ErrSyntax
      else
        let neg = (hd s = 0x2D);
            s1 = (if hd s = 0x2B \<or> hd s = 0x2D then tl s else s)
        in case ParseUint s1 64 of
             Inl ErrRange \<Rightarrow> Inl ErrRange
           | Inl err \<Rightarrow> Inl err
           | Inr un \<Rightarrow>
               if \<not> neg \<and> un \<ge> 2 ^ 63 then Inl ErrRange
               else if neg \<and> un > 2 ^ 63 then Inl ErrRange
               else Inr (if neg then - int un else int un))"

subsection \<open>bytes\<close>

text \<open>\<open>bytes.SplitN\<close> with a separator of one byte.\<close>

fun SplitN :: "bytes \<Rightarrow> byte \<Rightarrow> nat \<Rightarrow> bytes list" where
  "SplitN s sep 0 = []"
| "SplitN s sep (Suc 0) = [s]"
| "SplitN s sep (Suc (Suc n)) =
     (if sep \<in> set s
      then takeWhile (\<lambda>b. b \<noteq> sep) s # SplitN (tl (dropWhile (\<lambda>b. b \<noteq> sep) s)) sep (Suc n)
      else [s])"

definition TrimRight :: "bytes \<Rightarrow> bytes \<Rightarrow> bytes" where
  "TrimRight s cutset = rev (dropWhile (\<lambda>b. b \<in> set cutset) (rev s))"

subsection \<open>hash/crc32\<close>

text \<open>
  The table of a polynomial and the update of a checksum by a sequence of bytes, as the
  reference implementation of \<open>hash/crc32\<close> has them (\<open>simplePopulateTable\<close>,
  \<open>simpleUpdate\<close>); \<open>Checksum\<close> is the update of the checksum 0.
\<close>

definition crcStep :: "uint32 \<Rightarrow> uint32 \<Rightarrow> uint32" where
  "crcStep poly crc = (if crc AND 1 = 1 then drop_bit 1 crc XOR poly else drop_bit 1 crc)"

definition simpleMakeTable :: "uint32 \<Rightarrow> byte \<Rightarrow> uint32" where
  "simpleMakeTable poly i = (crcStep poly ^^ 8) (ucast i)"

definition updateByte :: "(byte \<Rightarrow> uint32) \<Rightarrow> uint32 \<Rightarrow> byte \<Rightarrow> uint32" where
  "updateByte tab crc v = tab (ucast crc XOR v) XOR drop_bit 8 crc"

definition simpleUpdate :: "uint32 \<Rightarrow> (byte \<Rightarrow> uint32) \<Rightarrow> bytes \<Rightarrow> uint32" where
  "simpleUpdate crc tab p = NOT (fold (\<lambda>v c. updateByte tab c v) p (NOT crc))"

definition Checksum :: "bytes \<Rightarrow> (byte \<Rightarrow> uint32) \<Rightarrow> uint32" where
  "Checksum data tab = simpleUpdate 0 tab data"

text \<open>
  Modelled from the spec: the declaration of \<open>crcTable\<close> is not among the sources. The
  spec has the checksum be the IEEE CRC-32, polynomial \<open>0xEDB88320\<close>.
\<close>

definition IEEE :: uint32 where
  "IEEE = 0xEDB88320"

definition crcTable :: "byte \<Rightarrow> uint32" where
  "crcTable = simpleMakeTable IEEE"

subsection \<open>ReadMessage\<close>

record Message =
  msgID :: uint64
  msgBody :: bytes

definition NewMessage :: "uint64 \<Rightarrow> bytes \<Rightarrow> Message" where
  "NewMessage i b = \<lparr>msgID = i, msgBody = b\<rparr>"

definition SP :: byte where
  "SP = 0x20"

text \<open>
  \<open>Scanner.ReadMessage\<close>, from what \<open>ReadLine\<close> returned for the buffered reader: the
  line without its terminator, and the error. The result is the number of bytes read and
  the message or the error.
\<close>

definition ReadMessage :: "bytes \<times> error option \<Rightarrow> nat \<times> (error + Message)" where
  "ReadMessage rl =
     (let line = fst rl;
          read = length line + 2
      in case snd rl of
           Some err \<Rightarrow> (read, Inl err)
         | None \<Rightarrow>
            if line = [0x2B, 0x45, 0x4F, 0x46] then (read, Inl io_EOF)
            else
              let parts = SplitN line SP 4
              in if length parts \<noteq> 4 then (read, Inl errInvalidProtocolLine)
                 else
                  (case ParseUint (parts ! 0) 64 of
                     Inl err \<Rightarrow> (read, Inl (Wrap err ''scanning id failed''))
                   | Inr i \<Rightarrow>
                      (case ParseInt (parts ! 1) of
                         Inl err \<Rightarrow> (read, Inl (Wrap err ''scanning body length failed''))
                       | Inr bodylen \<Rightarrow>
                          (case ParseUint (parts ! 2) 32 of
                             Inl err \<Rightarrow> (read, Inl (Wrap err ''failed to scan crc''))
                           | Inr checksum \<Rightarrow>
                               (let body = parts ! 3
                                in (if bodylen \<noteq> int (length body)
                                    then (read, Inl errInvalidBodyLength)
                                    else (if Checksum body crcTable \<noteq> of_nat checksum
                                          then (read, Inl errCrcChecksumMismatch)
                                          else (read, Inr (NewMessage (of_nat i)
                                                             (TrimRight body CRLF))))))))))"

text \<open>Flipping bit \<open>k\<close> of a sequence of bytes, bit 0 being the lowest bit of the first byte.\<close>

definition flipBit :: "nat \<Rightarrow> bytes \<Rightarrow> bytes" where
  "flipBit k bs = bs[k div 8 := (bs ! (k div 8)) XOR push_bit (k mod 8) 1]"

text \<open>
  Modelled from the spec: \<open>ReadLine\<close> is not among the sources. The spec has the
  protocol line-oriented, with lines terminated by a carriage return and a line feed.
  The model reads from the bytes left in the buffered reader up to the first line feed
  (without one, the reader's end is the error) and returns the line without its
  terminator. The spec does not say what becomes of a line feed with no carriage return
  before it: with \<open>strict\<close> it is an error, and otherwise the line ends there.
\<close>

definition LF :: byte where
  "LF = 0x0A"

definition CR :: byte where
  "CR = 0x0D"

definition ReadLine :: "bool \<Rightarrow> bytes \<Rightarrow> bytes \<times> error option" where
  "ReadLine strict s =
     (if LF \<notin> set s then ([], Some io_EOF)
      else
        let p = takeWhile (\<lambda>b. b \<noteq> LF) s
        in if p \<noteq> [] \<and> last p = CR then (butlast p, None)
           else if strict then ([], Some (OtherError ''line terminator''))
           else (p, None))"


section \<open>The older event queue (\<open>events.go\<close>)\<close>

text \<open>
  \<open>eventQ.doRead\<close> of package \<open>logd\<close> (\<open>events.go\<close>), the handler that the one above
  replaces. Its logger seeks to an id and is then read by a scanner: \<open>Scan\<close> is what
  the scanner yields from the position sought, the messages of its successful steps and
  the error after the last. The message channel of the response has no buffer, so the
  send of the bytes read waits for the receiver: \<open>receiving\<close> says whether the receiver
  is there. Subscriptions are kept by the address of the command's response channel.
\<close>

record 'l Logger_logd =
  SeekToID :: "'l \<Rightarrow> uint64 \<Rightarrow> 'l \<times> error option"
  Scan :: "'l \<Rightarrow> 'l \<times> Message list \<times> error option"

record 'l Env_logd =
  logger_logd :: "'l Logger_logd"
  msg_bytes :: "Message \<Rightarrow> bytes"
  receiving :: bool

record Command_logd =
  respC :: nat
  cmd_done :: nat

record 'l eventQ_logd =
  subscriptions_logd :: "(nat \<times> Subscription) list"
  log_logd :: 'l
  alloc_logd :: nat

datatype Effect_logd = respond RespType nat | sent nat bytes | finished

text \<open>
  The loop over the scanner: it stops after \<open>limit\<close> messages when the limit is not 0,
  and then the scanner has no error.
\<close>

fun doRead_scan ::
  "(Message \<Rightarrow> bytes) \<Rightarrow> Message list \<Rightarrow> error option \<Rightarrow> uint64 \<Rightarrow> bytes \<Rightarrow> nat
   \<Rightarrow> bytes \<times> error option" where
  "doRead_scan enc [] err limit b numMsg = (b, err)"
| "doRead_scan enc (msg # rest) err limit b numMsg =
     (let b' = b @ enc msg; numMsg' = numMsg + 1
      in if limit > 0 \<and> of_nat numMsg' \<ge> limit then (b', None)
         else doRead_scan enc rest err limit b' numMsg')"

definition doRead_logd ::
  "'l Env_logd \<Rightarrow> 'l eventQ_logd \<Rightarrow> Command_logd \<Rightarrow> uint64 \<Rightarrow> uint64
   \<Rightarrow> ('l eventQ_logd \<times> Effect_logd list) outcome" where
  "doRead_logd E q cmd startID limit =
     (let msgC = alloc_logd q;
          q1 = q\<lparr>alloc_logd := Suc msgC\<rparr>;
          es = [respond RespOK msgC]
      in case SeekToID (logger_logd E) (log_logd q1) startID of
           (lg, Some err) \<Rightarrow> Panics (q1\<lparr>log_logd := lg\<rparr>, es)
         | (lg, None) \<Rightarrow>
             (case Scan (logger_logd E) lg of
                (lg', msgs, serr) \<Rightarrow>
                  let q2 = q1\<lparr>log_logd := lg'\<rparr>
                  in (case doRead_scan (msg_bytes E) msgs serr limit [] 0 of
                        (b, Some err) \<Rightarrow> Panics (q2, es)
                      | (b, None) \<Rightarrow>
                          if length b > 0 \<and> \<not> receiving E then Blocks (q2, es)
                          else
                            let es' = (if length b > 0 then es @ [sent msgC b] else es)
                            in if limit = 0
                               then Returns
                                 (q2\<lparr>subscriptions_logd :=
                                       AList.update (respC cmd)
                                         (newSubscription msgC (cmd_done cmd))
                                         (subscriptions_logd q2)\<rparr>, es')
                               else Returns (q2, es' @ [finished]))))"

section \<open>The client (\<open>Client.ReadOffset\<close>)\<close>

text \<open>
  The connection of a client, as far as \<open>ReadOffset\<close> uses it: writing a request to the
  buffered writer, flushing it, and reading a response from the buffered reader. Each
  operation returns the connection afterwards and the error, if any.
\<close>

record Read =
  Offset :: uint64
  Messages :: int

record ClientResponse =
  respOffset :: uint64
  respBatches :: int
  respError :: "error option"

record 'c Conn =
  WriteTo :: "'c \<Rightarrow> Read \<Rightarrow> 'c \<times> nat \<times> error option"
  flush :: "'c \<Rightarrow> 'c \<times> error option"
  ReadFrom :: "'c \<Rightarrow> 'c \<times> ClientResponse \<times> nat \<times> error option"

text \<open>The scanner a read returns is the client's batch scanner, reset to the connection.\<close>

datatype 'c BatchScanner = BatchScanner 'c

definition client_send :: "'c Conn \<Rightarrow> 'c \<Rightarrow> Read \<Rightarrow> 'c \<times> nat \<times> error option" where
  "client_send N c wt =
     (case WriteTo N c wt of
        (c1, n, Some err) \<Rightarrow> (c1, 0, Some err)
      | (c1, n, None) \<Rightarrow>
          (case flush N c1 of
             (c2, Some err) \<Rightarrow> (c2, n, Some err)
           | (c2, None) \<Rightarrow> (c2, n, None)))"

definition readBatchResponse :: "'c Conn \<Rightarrow> 'c \<Rightarrow> 'c \<times> uint64 \<times> int \<times> error option" where
  "readBatchResponse N c =
     (case ReadFrom N c of
        (c1, cr, n, Some err) \<Rightarrow> (c1, 0, 0, Some err)
      | (c1, cr, n, None) \<Rightarrow> (c1, respOffset cr, respBatches cr, respError cr))"

definition ReadOffset ::
  "'c Conn \<Rightarrow> 'c \<Rightarrow> uint64 \<Rightarrow> int \<Rightarrow> 'c \<times> (error + int \<times> 'c BatchScanner)" where
  "ReadOffset N c offset limit =
     (let req = \<lparr>Offset = offset, Messages = limit\<rparr>
      in case client_send N c req of
           (c1, n, Some err) \<Rightarrow> (c1, Inl err)
         | (c1, n, None) \<Rightarrow>
             (case readBatchResponse N c1 of
                (c2, respOff, nbatches, Some err) \<Rightarrow> (c2, Inl err)
              | (c2, respOff, nbatches, None) \<Rightarrow>
                  if respOff \<noteq> offset then (c2, Inl ErrInternal)
                  else (c2, Inr (nbatches, BatchScanner c2))))"

section \<open>The handlers of the topics (\<open>Handlers.PushRequest\<close>)\<close>

text \<open>
  \<open>Handlers\<close> keeps one event queue for each topic and one for the requests that do not
  block. Of an event queue it uses the constructor, \<open>setTopic\<close>, \<open>GoStart\<close> and
  \<open>PushRequest\<close>; the queue is its topic and whether it has been started, and the result
  of \<open>PushRequest\<close> is the queue the request was pushed to, or the error returned
  instead. Adding a topic and starting a queue are taken from the environment.
\<close>

record Request =
  ReqName :: CmdType
  Topic :: string

record 'tp eventQ =
  topic :: "'tp option"
  started :: bool

record ('t, 'tp) HEnv =
  topics_add :: "'t \<Rightarrow> string \<Rightarrow> 't \<times> (error + 'tp)"
  startQ :: "'tp eventQ \<Rightarrow> error option"

record ('t, 'tp) Handlers =
  h :: "string \<Rightarrow> 'tp eventQ option"
  asyncQ :: "'tp eventQ"
  topics :: 't

datatype target = AsyncQ | TopicQ string

definition blockingReqs :: "CmdType \<Rightarrow> bool" where
  "blockingReqs n = (n = CmdBatch \<or> n = CmdRead \<or> n = CmdTail)"

definition newEventQ :: "'tp eventQ" where
  "newEventQ = \<lparr>topic = None, started = False\<rparr>"

definition setTopic :: "'tp eventQ \<Rightarrow> 'tp \<Rightarrow> 'tp eventQ" where
  "setTopic q t = q\<lparr>topic := Some t\<rparr>"

definition GoStart :: "('t, 'tp) HEnv \<Rightarrow> 'tp eventQ \<Rightarrow> error + 'tp eventQ" where
  "GoStart N q = (case startQ N q of Some err \<Rightarrow> Inl err | None \<Rightarrow> Inr (q\<lparr>started := True\<rparr>))"

definition pushBlockingRequest ::
  "('t, 'tp) HEnv \<Rightarrow> ('t, 'tp) Handlers \<Rightarrow> Request \<Rightarrow> ('t, 'tp) Handlers \<times> (error + target)" where
  "pushBlockingRequest N H req =
     (let name = Topic req
      in if name = [] then (H, Inr AsyncQ)
         else
           case h H name of
             Some q \<Rightarrow> (H, Inr (TopicQ name))
           | None \<Rightarrow>
               if ReqName req = CmdBatch
               then
                 (case topics_add N (topics H) name of
                    (t', Inl err) \<Rightarrow> (H\<lparr>topics := t'\<rparr>, Inl err)
                  | (t', Inr tp) \<Rightarrow>
                      (case GoStart N (setTopic newEventQ tp) of
                         Inl err \<Rightarrow> (H\<lparr>topics := t'\<rparr>, Inl err)
                       | Inr q \<Rightarrow> (H\<lparr>topics := t', h := (h H)(name \<mapsto> q)\<rparr>, Inr (TopicQ name))))
               else (H, Inr AsyncQ))"

definition PushRequest ::
  "('t, 'tp) HEnv \<Rightarrow> ('t, 'tp) Handlers \<Rightarrow> Request \<Rightarrow> ('t, 'tp) Handlers \<times> (error + target)" where
  "PushRequest N H req =
     (if blockingReqs (ReqName req) then pushBlockingRequest N H req
      else (H, Inr AsyncQ))"

section \<open>The topic queue and its store\<close>

text \<open>
  Modelled from the spec: the event queue that answers \<open>BATCH\<close>, the one \<open>Handlers\<close>
  pushes requests to and \<open>TestEventQBatchV2\<close> drives, and its partition store are not
  among the sources. What follows is the spec's partition store (append, head, retain),
  its subscription set (broadcast) and the \<open>BATCH\<close> row of its dispatch table. The index
  files, which do not bear on offsets, are left out.
\<close>

text \<open>
  A partition is a file named by its starting offset. The store is the ordered list of
  the partitions, the last being the current one. The head is the start of the last
  partition plus its size.
\<close>

record Partition =
  partStart :: nat
  partBytes :: bytes

record Config =
  PartitionSize :: nat
  MaxPartitions :: nat

definition headOffset :: "Partition list \<Rightarrow> nat" where
  "headOffset ps = (if ps = [] then 0 else partStart (last ps) + length (partBytes (last ps)))"

text \<open>
  While there are more partitions than \<open>MaxPartitions\<close>, the one with the smallest
  starting offset is dropped; the current partition is never dropped.
\<close>

fun retain :: "nat \<Rightarrow> Partition list \<Rightarrow> Partition list" where
  "retain mx (p # p' # ps) =
     (if length (p # p' # ps) > mx then retain mx (p' # ps) else p # p' # ps)"
| "retain mx ps = ps"

text \<open>
  Append returns the starting offset of the batch, the head before the append. The batch
  goes to the current partition, or to a new partition named by the head when the
  current one would grow beyond \<open>PartitionSize\<close>; a new partition is followed by
  \<open>retain\<close>. An I/O error leaves the partitions as they were.
\<close>

definition store_append ::
  "Config \<Rightarrow> error option \<Rightarrow> Partition list \<Rightarrow> bytes \<Rightarrow> error + (Partition list \<times> nat)" where
  "store_append conf ioErr ps w =
     (case ioErr of
        Some e \<Rightarrow> Inl e
      | None \<Rightarrow>
          let off = headOffset ps
          in if ps = [] then Inr ([\<lparr>partStart = off, partBytes = w\<rparr>], off)
             else if length (partBytes (last ps)) + length w > PartitionSize conf
             then Inr (retain (MaxPartitions conf) (ps @ [\<lparr>partStart = off, partBytes = w\<rparr>]), off)
             else Inr (butlast ps @ [(last ps)\<lparr>partBytes := partBytes (last ps) @ w\<rparr>], off))"

text \<open>
  A batch as the codec hands it to the queue: the topic, the count, checksum and body
  length its first line declares, and the messages of the frames of its body.
\<close>

record Batch =
  batchTopic :: string
  batchCount :: nat
  batchCrc :: nat
  batchLength :: nat
  batchMsgs :: "bytes list"

definition bytesOfString :: "string \<Rightarrow> bytes" where
  "bytesOfString t = map (\<lambda>ch. of_nat (of_char ch)) t"

text \<open>The frame \<open>MSG <length>\<close>, the bytes, each followed by the line terminator.\<close>

definition msgFrame :: "bytes \<Rightarrow> bytes" where
  "msgFrame m = [0x4D, 0x53, 0x47, 0x20] @ FormatUint (length m) @ CRLF @ m @ CRLF"

definition batchBody :: "Batch \<Rightarrow> bytes" where
  "batchBody bt = concat (map msgFrame (batchMsgs bt))"

text \<open>
  The wire form \<open>BATCH <topic> <count> <crc32> <body_length>\<close>, the body, each followed
  by the line terminator.
\<close>

definition batchWire :: "Batch \<Rightarrow> bytes" where
  "batchWire bt =
     [0x42, 0x41, 0x54, 0x43, 0x48, 0x20] @ bytesOfString (batchTopic bt) @ SP #
     FormatUint (batchCount bt) @ SP # FormatUint (batchCrc bt) @ SP #
     FormatUint (batchLength bt) @ CRLF @ batchBody bt @ CRLF"

text \<open>Topic names are made of letters, digits, \<open>_\<close> and \<open>-\<close>, and have 1 to 255 bytes.\<close>

definition topicChar :: "char \<Rightarrow> bool" where
  "topicChar ch =
     (let n = (of_char ch :: nat)
      in (48 \<le> n \<and> n \<le> 57) \<or> (65 \<le> n \<and> n \<le> 90) \<or> (97 \<le> n \<and> n \<le> 122) \<or> n = 95 \<or> n = 45)"

definition validTopic :: "string \<Rightarrow> bool" where
  "validTopic t = (t \<noteq> [] \<and> length t \<le> 255 \<and> list_all topicChar t)"

text \<open>
  The validation of a batch: the topic name, a body that is not empty, no empty message,
  and the declared count, body length and checksum those of the body.
\<close>

definition validBatch :: "Batch \<Rightarrow> bool" where
  "validBatch bt =
     (validTopic (batchTopic bt) \<and> batchMsgs bt \<noteq> [] \<and> [] \<notin> set (batchMsgs bt) \<and>
      batchCount bt = length (batchMsgs bt) \<and> batchLength bt = length (batchBody bt) \<and>
      batchCrc bt = unat (Checksum (batchBody bt) crcTable))"

text \<open>
  A subscriber: the connection, and its bounded channel of the bytes of batches.
  Broadcast sends the bytes on the channel of every subscriber; a subscriber whose
  channel is full is dropped and its done is signalled. The result is the subscribers
  kept and the connections whose done was signalled.
\<close>

record Subscriber =
  subConn :: string
  subChan :: "bytes Chan"

fun broadcast :: "bytes \<Rightarrow> Subscriber list \<Rightarrow> Subscriber list \<times> string list" where
  "broadcast w [] = ([], [])"
| "broadcast w (sb # sbs) =
     (let r = broadcast w sbs
      in if hasRoom (subChan sb) then (sb\<lparr>subChan := enqueue (subChan sb) w\<rparr> # fst r, snd r)
         else (fst r, subConn sb # snd r))"

record TopicQ =
  tqParts :: "Partition list"
  tqSubs :: "Subscriber list"
  tqServing :: bool

record Ack =
  ackStatus :: RespType
  ackOffset :: nat
  ackBatches :: nat

text \<open>
  The handling of a \<open>BATCH\<close>: the queue after it, the connections whose done was
  signalled, and the response. A request past its deadline is answered \<open>ERR\<close> before
  it is dispatched, a batch that is not valid \<open>CLIENT_ERR\<close>. A valid batch is appended
  in its wire form and broadcast, and answered \<open>OK\<close> with its offset and one batch. A
  store error is answered \<open>ERR\<close>, and the queue stops serving the topic: from then on it
  answers nothing.
\<close>

definition handleBatch ::
  "Config \<Rightarrow> bool \<Rightarrow> error option \<Rightarrow> TopicQ \<Rightarrow> Batch \<Rightarrow> TopicQ \<times> string list \<times> Ack option" where
  "handleBatch conf expired ioErr tq bt =
     (if \<not> tqServing tq then (tq, [], None)
      else if expired then (tq, [], Some \<lparr>ackStatus = RespErr, ackOffset = 0, ackBatches = 0\<rparr>)
      else if \<not> validBatch bt
      then (tq, [], Some \<lparr>ackStatus = RespErrClient, ackOffset = 0, ackBatches = 0\<rparr>)
      else
        case store_append conf ioErr (tqParts tq) (batchWire bt) of
          Inl e \<Rightarrow> (tq\<lparr>tqServing := False\<rparr>, [],
                     Some \<lparr>ackStatus = RespErr, ackOffset = 0, ackBatches = 0\<rparr>)
        | Inr r \<Rightarrow>
            let bc = broadcast (batchWire bt) (tqSubs tq)
            in (tq\<lparr>tqParts := fst r, tqSubs := fst bc\<rparr>, snd bc,
                Some \<lparr>ackStatus = RespOK, ackOffset = snd r, ackBatches = 1\<rparr>))"

text \<open>
  The queue's turns on a sequence of \<open>BATCH\<close> requests, each with its deadline and what
  the store's I/O does: the queue after the last, and the responses in order.
\<close>

fun handleBatches ::
  "Config \<Rightarrow> TopicQ \<Rightarrow> (bool \<times> error option \<times> Batch) list \<Rightarrow> TopicQ \<times> Ack option list" where
  "handleBatches conf tq [] = (tq, [])"
| "handleBatches conf tq (rq # rqs) =
     (let r = handleBatch conf (fst rq) (fst (snd rq)) tq (snd (snd rq));
          rest = handleBatches conf (fst r) rqs
      in (fst rest, snd (snd r) # snd rest))"

text \<open>A response that is \<open>OK\<close>.\<close>

fun answeredOK :: "Ack option \<Rightarrow> bool" where
  "answeredOK None = False"
| "answeredOK (Some a) = (ackStatus a = RespOK)"

section \<open>Concrete runs\<close>

text \<open>
  A logger that keeps the lines written in memory, for running the handlers on concrete
  commands: \<open>mlRoom\<close> is the number of writes it still accepts, the head is the id set
  last, and a range is found when its start is an id between 1 and the head.
\<close>

record MemLog =
  mlData :: "bytes list"
  mlID :: uint64
  mlRoom :: nat

definition memLogger :: "MemLog Logger" where
  "memLogger =
     \<lparr>Write = (\<lambda>l b. if mlRoom l = 0 then (l, Some (OtherError ''write failed''))
                     else (l\<lparr>mlData := mlData l @ [b], mlRoom := mlRoom l - 1\<rparr>, None)),
      SetID = (\<lambda>l i. l\<lparr>mlID := i\<rparr>),
      Head = (\<lambda>l. Inr (mlID l)),
      Range = (\<lambda>l s e. if s = 0 \<or> mlID l < s then Inl (OtherError ''not found'')
                        else Inr [(None, Some \<lparr>fname = ''log.0'',
                                               fsize = int (length (concat (mlData l))),
                                               flimit = 0\<rparr>)]),
      Shutdown = (\<lambda>l. (l, None))\<rparr>"

text \<open>
  The line of a message as \<open>ReadMessage\<close> reads it back: id, length of the body, checksum
  and body, separated by spaces, then the line terminator.
\<close>

definition writeLogLine :: "uint64 \<Rightarrow> bytes \<Rightarrow> bytes" where
  "writeLogLine i body =
     FormatUint (unat i) @ SP # FormatUint (length body) @ SP #
     FormatUint (unat (Checksum body crcTable)) @ SP # body @ CRLF"

text \<open>
  The \<open>%d\<close> scan of \<open>fmt.Sscanf\<close>: the white space before the number is skipped, where
  a line feed or the end of the input is an error; a sign is accepted; the digits (and
  underscores) that follow are the token, which \<open>strconv.ParseInt\<close> converts; what comes
  after the token is left unread.
\<close>

definition scanInt :: "bytes \<Rightarrow> error + int" where
  "scanInt s =
     (let s1 = dropWhile (\<lambda>b. b = 0x20 \<or> b = 0x09 \<or> b = 0x0B \<or> b = 0x0C \<or> b = 0x0D) s;
          sg = (if s1 \<noteq> [] \<and> (hd s1 = 0x2B \<or> hd s1 = 0x2D) then [hd s1] else []);
          s2 = drop (length sg) s1;
          tok = takeWhile (\<lambda>b. isDigit b \<or> b = 0x5F) s2
      in if s1 = [] then Inl (OtherError ''unexpected EOF'')
         else if hd s1 = 0x0A then Inl (OtherError ''unexpected newline'')
         else if tok = [] then Inl (OtherError ''expected integer'')
         else ParseInt (sg @ tok))"

definition testEnv :: "MemLog Env" where
  "testEnv =
     \<lparr>logger = memLogger,
      WriteLogLine = writeLogLine,
      ParseNumber = (\<lambda>b. case ParseUint b 64 of Inl err \<Rightarrow> Inl err | Inr n \<Rightarrow> Inr (of_nat n)),
      Sscanf_d = scanInt\<rparr>"

definition q0 :: "MemLog EventQ" where
  "q0 = \<lparr>currID = 1, subscriptions = [], log = \<lparr>mlData = [], mlID = 0, mlRoom = 1\<rparr>,
         Stats = (\<lambda>_. 0), readerCs = (\<lambda>_. makeChan 1000), doneCs = (\<lambda>_. makeChan 1),
         allocC = 0\<rparr>"

text \<open>The queue after the message \<open>a\<close> has been written to \<open>q0\<close> as message 1.\<close>

definition q1 :: "MemLog EventQ" where
  "q1 = q0\<lparr>currID := 2, log := \<lparr>mlData = [writeLogLine 1 [0x61]], mlID = 1, mlRoom = 1\<rparr>\<rparr>"

text \<open>A queue with one subscriber, whose reader channel is full.\<close>

definition qFull :: "MemLog EventQ" where
  "qFull = q0\<lparr>subscriptions := [(''c1'', \<lparr>readerC = 0, doneC = 0\<rparr>)],
              readerCs := (\<lambda>_. \<lparr>buf = replicate 1000 (BytesReader []), cap = 1000\<rparr>)\<rparr>"

text \<open>
  A connection for concrete runs of the client: writes succeed, and the responses of
  the server are read from a list.
\<close>

definition testConn :: "(ClientResponse list) Conn" where
  "testConn =
     \<lparr>WriteTo = (\<lambda>c r. (c, 0, None)),
      flush = (\<lambda>c. (c, None)),
      ReadFrom = (\<lambda>c. case c of
                         [] \<Rightarrow> (c, \<lparr>respOffset = 0, respBatches = 0, respError = None\<rparr>, 0, Some io_EOF)
                       | r # rs \<Rightarrow> (rs, r, 0, None))\<rparr>"

text \<open>
  An environment of the handlers for concrete runs: the topics are the list of their
  names, and adding a topic and starting its queue succeed.
\<close>

definition testHEnv :: "(string list, string) HEnv" where
  "testHEnv = \<lparr>topics_add = (\<lambda>t name. (name # t, Inr name)), startQ = (\<lambda>q. None)\<rparr>"

text \<open>An environment in which adding a topic fails.\<close>

definition failHEnv :: "(string list, string) HEnv" where
  "failHEnv = \<lparr>topics_add = (\<lambda>t name. (t, Inl (OtherError ''topic''))), startQ = (\<lambda>q. None)\<rparr>"

definition H0 :: "(string list, string) Handlers" where
  "H0 = \<lparr>h = Map.empty, asyncQ = newEventQ, topics = []\<rparr>"

text \<open>The line \<open>1 1 3904355907 a\<close>.\<close>

definition line_a :: bytes where
  "line_a = [0x31, 0x20, 0x31, 0x20, 0x33, 0x39, 0x30, 0x34, 0x33, 0x35, 0x35, 0x39, 0x30, 0x37,
             0x20, 0x61]"


text \<open>The commands of the concrete runs: read one message from id 5, read one message
  from id 1.\<close>

definition cmd_read_5 :: Command where
  "cmd_read_5 = \<lparr>Name = CmdRead, Args = [[0x35], [0x31]], ConnID = ''c1'', Done = 7\<rparr>"

definition cmd_read_1 :: Command where
  "cmd_read_1 = \<lparr>Name = CmdRead, Args = [[0x31], [0x31]], ConnID = ''c1'', Done = 7\<rparr>"

text \<open>A queue with one subscriber, whose reader channel is empty.\<close>

definition qSub :: "MemLog EventQ" where
  "qSub = q0\<lparr>subscriptions := [(''c1'', \<lparr>readerC = 0, doneC = 0\<rparr>)]\<rparr>"

text \<open>The line \<open>1 1 1141589763 J\<close>, and what precedes its body.\<close>

definition head_J :: bytes where
  "head_J = [0x31, 0x20, 0x31, 0x20, 0x31, 0x31, 0x34, 0x31, 0x35, 0x38, 0x39, 0x37, 0x36, 0x33,
             0x20]"

definition line_J :: bytes where
  "line_J = head_J @ [0x4A]"

text \<open>
  The batch of the one message \<open>hello\<close> for the topic \<open>t\<close>, a configuration with
  partitions of 64 bytes of which two are kept, and the queue of a new topic.
\<close>

definition batch_hello :: Batch where
  "batch_hello =
     \<lparr>batchTopic = ''t'', batchCount = 1, batchCrc = 1680380747, batchLength = 14,
      batchMsgs = [[0x68, 0x65, 0x6C, 0x6C, 0x6F]]\<rparr>"

definition conf64 :: Config where
  "conf64 = \<lparr>PartitionSize = 64, MaxPartitions = 2\<rparr>"

definition tq0 :: TopicQ where
  "tq0 = \<lparr>tqParts = [], tqSubs = [], tqServing = True\<rparr>"

section \<open>Properties of outcomes and states\<close>

text \<open>
  The readers that publishing the messages puts on the reader channel at an address: the
  messages in order, once for each subscription whose reader channel is there.
\<close>

fun deliveries :: "(string \<times> Subscription) list \<Rightarrow> bytes list \<Rightarrow> nat \<Rightarrow> Reader list" where
  "deliveries [] msgs c = []"
| "deliveries (sb # sbs) msgs c =
     (if readerC (snd sb) = c then map BytesReader msgs else []) @ deliveries sbs msgs c"


fun blocks :: "'a outcome \<Rightarrow> bool" where
  "blocks (Blocks a) = True"
| "blocks (Returns a) = False"
| "blocks (Panics a) = False"

text \<open>
  What a send on a reader channel leaves alone: everything but the contents of the
  reader channels, which only grow.
\<close>

definition sameButReaders :: "'l EventQ \<Rightarrow> 'l EventQ \<Rightarrow> bool" where
  "sameButReaders q q' \<longleftrightarrow>
     currID q' = currID q \<and> subscriptions q' = subscriptions q \<and> log q' = log q \<and>
     Stats q' = Stats q \<and> doneCs q' = doneCs q \<and> allocC q' = allocC q \<and>
     (\<forall>c. cap (readerCs q' c) = cap (readerCs q c) \<and>
          length (buf (readerCs q c)) \<le> length (buf (readerCs q' c)))"

text \<open>
  What a run of sends has put on the reader channels: at each address, the readers of
  \<open>d\<close> after those that were there, and the capacity as before.
\<close>

definition delivered :: "'l EventQ \<Rightarrow> 'l EventQ \<Rightarrow> (nat \<Rightarrow> Reader list) \<Rightarrow> bool" where
  "delivered q q' d \<longleftrightarrow>
     (\<forall>c. buf (readerCs q' c) = buf (readerCs q c) @ d c \<and>
          cap (readerCs q' c) = cap (readerCs q c))"

section \<open>Facts about the checksum\<close>

lemma and_1_eq_1_iff: "c AND 1 = 1 \<longleftrightarrow> odd c" for c :: uint32
  by (simp add: and_one_eq odd_iff_mod_2_eq_one)

lemma crcStep_alt: "crcStep p c = (if odd c then drop_bit 1 c XOR p else drop_bit 1 c)"
  by (simp only: crcStep_def and_1_eq_1_iff)

lemma bit_crcStep:
  "bit (crcStep p c) n \<longleftrightarrow> (bit c (Suc n) \<noteq> (odd c \<and> bit p n))"
  by (auto simp: crcStep_alt bit_simps dest: bit_imp_le_length)

text \<open>One step of the shift register is linear over exclusive or.\<close>

lemma crcStep_xor: "crcStep p (a XOR b) = crcStep p a XOR crcStep p b"
  by (rule bit_word_eqI) (auto simp: bit_crcStep bit_simps even_xor_iff)

lemma bit_IEEE_31: "bit IEEE 31"
  by (simp add: IEEE_def bit_simps)

text \<open>
  The highest bit of the polynomial is set, so a step shows the lowest bit of its
  argument in the highest bit of its result, and the step is injective.
\<close>

lemma crcStep_inj:
  assumes "crcStep IEEE a = crcStep IEEE b"
  shows "a = b"
proof -
  have eq: "\<And>n. bit (crcStep IEEE a) n = bit (crcStep IEEE b) n"
    using assms by simp
  have top: "\<not> bit a (Suc 31)" "\<not> bit b (Suc 31)"
    by (auto dest: bit_imp_le_length)
  from eq [of 31] top have par: "odd a = odd b"
    by (simp add: bit_crcStep bit_IEEE_31)
  show ?thesis
  proof (rule bit_word_eqI)
    fix n assume "n < LENGTH(32)"
    show "bit a n = bit b n"
    proof (cases n)
      case 0
      then show ?thesis using par by (simp add: bit_0)
    next
      case (Suc m)
      then show ?thesis using eq [of m] par by (auto simp: bit_crcStep)
    qed
  qed
qed

lemma crcStep_pow_xor:
  "(crcStep p ^^ n) (a XOR b) = (crcStep p ^^ n) a XOR (crcStep p ^^ n) b"
  by (induction n arbitrary: a b) (simp_all add: crcStep_xor funpow_swap1)

lemma crcStep_pow_inj: "(crcStep IEEE ^^ n) a = (crcStep IEEE ^^ n) b \<Longrightarrow> a = b"
  by (induction n arbitrary: a b) (auto dest: crcStep_inj)

lemma crcStep_even: "even c \<Longrightarrow> crcStep p c = drop_bit 1 c"
  by (simp add: crcStep_alt)

lemma take_bit_Suc_0_even: "take_bit (Suc n) c = 0 \<Longrightarrow> even c" for c :: uint32
proof -
  assume "take_bit (Suc n) c = 0"
  then have "\<not> bit (take_bit (Suc n) c) 0" by simp
  then show "even c" by (simp add: bit_simps bit_0)
qed

lemma take_bit_Suc_0_drop: "take_bit (Suc n) c = 0 \<Longrightarrow> take_bit n (drop_bit 1 c) = 0"
  for c :: uint32
proof -
  assume z: "take_bit (Suc n) c = 0"
  show "take_bit n (drop_bit 1 c) = 0"
  proof (rule bit_word_eqI)
    fix k assume "k < LENGTH(32)"
    from z have "\<not> bit (take_bit (Suc n) c) (Suc k)" by simp
    then show "bit (take_bit n (drop_bit 1 c)) k = bit (0 :: uint32) k"
      by (simp add: bit_simps)
  qed
qed

text \<open>On a word whose low \<open>n\<close> bits are zero, \<open>n\<close> steps are a shift.\<close>

lemma crcStep_pow_shift: "take_bit n c = 0 \<Longrightarrow> (crcStep p ^^ n) c = drop_bit n c"
proof (induction n arbitrary: c)
  case 0
  then show ?case by simp
next
  case (Suc n)
  have ev: "even c" using Suc.prems by (rule take_bit_Suc_0_even)
  have "take_bit n (drop_bit 1 c) = 0" using Suc.prems by (rule take_bit_Suc_0_drop)
  then have "(crcStep p ^^ n) (drop_bit 1 c) = drop_bit n (drop_bit 1 c)"
    by (rule Suc.IH)
  then show ?case using ev
    by (simp add: funpow_swap1 crcStep_even)
qed

lemma split_word:
  "c XOR ucast v = ucast (ucast c XOR v :: byte) XOR push_bit 8 (drop_bit 8 c)"
  for c :: uint32 and v :: byte
  by (rule bit_word_eqI) (auto simp: bit_simps dest: bit_imp_le_length)

lemma hi_part:
  "take_bit 8 (push_bit 8 (drop_bit 8 c)) = 0"
  "drop_bit 8 (push_bit 8 (drop_bit 8 c)) = drop_bit 8 c" for c :: uint32
  by (rule bit_word_eqI; auto simp: bit_simps dest: bit_imp_le_length)+

lemma xor_right_cancel: "a XOR x = b XOR x \<Longrightarrow> a = b" for a b x :: "'a::len word"
proof -
  assume "a XOR x = b XOR x"
  then have "(a XOR x) XOR x = (b XOR x) XOR x" by simp
  then show "a = b" by (simp add: xor.assoc)
qed

lemma xor_left_cancel: "x XOR a = x XOR b \<Longrightarrow> a = b" for a b x :: "'a::len word"
  by (rule xor_right_cancel [of a x b]) (simp add: xor.commute)

text \<open>The table lookup of \<open>simpleUpdate\<close> is eight steps of the shift register.\<close>

lemma updateByte_alt: "updateByte crcTable c v = (crcStep IEEE ^^ 8) (c XOR ucast v)"
proof -
  have "(crcStep IEEE ^^ 8) (c XOR ucast v) =
        (crcStep IEEE ^^ 8) (ucast (ucast c XOR v :: byte)) XOR
        (crcStep IEEE ^^ 8) (push_bit 8 (drop_bit 8 c))"
    by (subst split_word) (rule crcStep_pow_xor)
  also have "(crcStep IEEE ^^ 8) (push_bit 8 (drop_bit 8 c)) = drop_bit 8 c"
    using crcStep_pow_shift [OF hi_part(1), of IEEE c] by (simp only: hi_part(2))
  finally show ?thesis
    by (simp add: updateByte_def crcTable_def simpleMakeTable_def)
qed

lemma updateByte_inj_state: "updateByte crcTable a v = updateByte crcTable b v \<Longrightarrow> a = b"
  unfolding updateByte_alt by (drule crcStep_pow_inj) (rule xor_right_cancel)

lemma ucast_byte_inj: "(ucast v :: uint32) = ucast w \<Longrightarrow> v = w" for v w :: byte
proof (rule bit_word_eqI)
  fix n assume n: "n < LENGTH(8)" and eq: "(ucast v :: uint32) = ucast w"
  from eq have "bit (ucast v :: uint32) n = bit (ucast w :: uint32) n" by simp
  with n show "bit v n = bit w n" by (simp add: bit_simps)
qed

lemma updateByte_inj_byte: "updateByte crcTable c v = updateByte crcTable c w \<Longrightarrow> v = w"
  unfolding updateByte_alt by (drule crcStep_pow_inj) (blast dest: xor_left_cancel ucast_byte_inj)

lemma fold_updateByte_inj:
  "fold (\<lambda>v c. updateByte crcTable c v) p a = fold (\<lambda>v c. updateByte crcTable c v) p b
   \<Longrightarrow> a = b"
  by (induction p arbitrary: a b) (auto dest: updateByte_inj_state)

lemma Checksum_alt:
  "Checksum p crcTable = NOT (fold (\<lambda>v c. updateByte crcTable c v) p (NOT 0))"
  by (simp add: Checksum_def simpleUpdate_def)

text \<open>Changing one byte of the data changes the checksum.\<close>

lemma Checksum_change_byte:
  assumes "i < length p" "w \<noteq> p ! i"
  shows "Checksum (p[i := w]) crcTable \<noteq> Checksum p crcTable"
proof -
  have p: "p = take i p @ (p ! i) # drop (Suc i) p"
    using assms(1) by (simp add: id_take_nth_drop)
  have q: "p[i := w] = take i p @ w # drop (Suc i) p"
    using assms(1) by (simp add: upd_conv_take_nth_drop)
  let ?f = "\<lambda>v c. updateByte crcTable c v"
  let ?s = "fold ?f (take i p) (NOT 0)"
  have "fold ?f (p[i := w]) (NOT 0) = fold ?f (drop (Suc i) p) (updateByte crcTable ?s w)"
    by (subst q) simp
  moreover have "fold ?f p (NOT 0) = fold ?f (drop (Suc i) p) (updateByte crcTable ?s (p ! i))"
    by (subst p) simp
  moreover have "updateByte crcTable ?s w \<noteq> updateByte crcTable ?s (p ! i)"
    using assms(2) updateByte_inj_byte by blast
  ultimately have "fold ?f (p[i := w]) (NOT 0) \<noteq> fold ?f p (NOT 0)"
    using fold_updateByte_inj by metis
  then show ?thesis by (simp add: Checksum_alt)
qed

lemma flip_ne: "k < 8 \<Longrightarrow> b XOR push_bit k 1 \<noteq> b" for b :: byte
proof
  assume k: "k < 8" and "b XOR push_bit k 1 = b"
  then have "bit (b XOR push_bit k 1) k = bit b k" by simp
  then show False using k by (simp add: bit_simps)
qed

lemma Checksum_flipBit:
  assumes "k < 8 * length p"
  shows "Checksum (flipBit k p) crcTable \<noteq> Checksum p crcTable"
  unfolding flipBit_def
proof (rule Checksum_change_byte)
  show "k div 8 < length p" using assms by (simp add: less_mult_imp_div_less mult.commute)
  show "p ! (k div 8) XOR push_bit (k mod 8) 1 \<noteq> p ! (k div 8)"
    by (rule flip_ne) simp
qed

lemma length_flipBit: "length (flipBit k p) = length p"
  by (simp add: flipBit_def)

lemma Checksum_a: "Checksum [0x61] crcTable = 3904355907"
  by code_simp

section \<open>Facts about splitting a line\<close>

lemma split_at_sep:
  assumes "sep \<in> set s"
  shows "s = takeWhile (\<lambda>b. b \<noteq> sep) s @ sep # tl (dropWhile (\<lambda>b. b \<noteq> sep) s)"
    and "sep \<notin> set (takeWhile (\<lambda>b. b \<noteq> sep) s)"
proof -
  let ?d = "dropWhile (\<lambda>b. b \<noteq> sep) s"
  from assms have ne: "?d \<noteq> []" by (simp add: dropWhile_eq_Nil_conv)
  then have "hd ?d = sep" using hd_dropWhile [of "\<lambda>b. b \<noteq> sep" s] by simp
  with ne have "?d = sep # tl ?d" by (cases ?d) simp_all
  then show "s = takeWhile (\<lambda>b. b \<noteq> sep) s @ sep # tl ?d"
    using takeWhile_dropWhile_id [of "\<lambda>b. b \<noteq> sep" s] by simp
  show "sep \<notin> set (takeWhile (\<lambda>b. b \<noteq> sep) s)"
    by (auto dest: set_takeWhileD)
qed

lemma split_at_first:
  assumes "sep \<notin> set a"
  shows "takeWhile (\<lambda>b. b \<noteq> sep) (a @ sep # r) = a"
    and "tl (dropWhile (\<lambda>b. b \<noteq> sep) (a @ sep # r)) = r"
proof -
  have P: "\<And>x. x \<in> set a \<Longrightarrow> x \<noteq> sep" using assms by auto
  show "takeWhile (\<lambda>b. b \<noteq> sep) (a @ sep # r) = a"
    using takeWhile_append2 [of a "\<lambda>b. b \<noteq> sep" "sep # r"] P by simp
  show "tl (dropWhile (\<lambda>b. b \<noteq> sep) (a @ sep # r)) = r"
    using dropWhile_append2 [of a "\<lambda>b. b \<noteq> sep" "sep # r"] P by simp
qed

lemma four: "(4::nat) = Suc (Suc (Suc (Suc 0)))"
  by simp

lemma SplitN4_decomp:
  assumes "SplitN line sep 4 = [a, b, c, body]"
  shows "line = a @ sep # b @ sep # c @ sep # body \<and>
         sep \<notin> set a \<and> sep \<notin> set b \<and> sep \<notin> set c"
proof -
  let ?tw = "takeWhile (\<lambda>b. b \<noteq> sep)" and ?r = "\<lambda>s. tl (dropWhile (\<lambda>b. b \<noteq> sep) s)"
  from assms have s1: "sep \<in> set line"
    by (auto simp: four split: if_splits)
  with assms have a: "a = ?tw line" and r1: "SplitN (?r line) sep 3 = [b, c, body]"
    by (simp_all add: four numeral_3_eq_3)
  from r1 have s2: "sep \<in> set (?r line)"
    by (auto simp: numeral_3_eq_3 split: if_splits)
  with r1 have b: "b = ?tw (?r line)" and r2: "SplitN (?r (?r line)) sep 2 = [c, body]"
    by (simp_all add: numeral_3_eq_3 numeral_2_eq_2)
  from r2 have s3: "sep \<in> set (?r (?r line))"
    by (auto simp: numeral_2_eq_2 split: if_splits)
  with r2 have c: "c = ?tw (?r (?r line))" and r3: "body = ?r (?r (?r line))"
    by (simp_all add: numeral_2_eq_2)
  show ?thesis
    using split_at_sep [OF s1] split_at_sep [OF s2] split_at_sep [OF s3] a b c r3
    by metis
qed

lemma SplitN4_comp:
  assumes "sep \<notin> set a" "sep \<notin> set b" "sep \<notin> set c"
  shows "SplitN (a @ sep # b @ sep # c @ sep # body) sep 4 = [a, b, c, body]"
  using assms by (simp add: four split_at_first)

section \<open>Facts about the concrete runs\<close>

lemma line_a_split:
  "SplitN line_a SP 4 =
     [[0x31], [0x31], [0x33, 0x39, 0x30, 0x34, 0x33, 0x35, 0x35, 0x39, 0x30, 0x37], [0x61]]"
  using SplitN4_comp [of SP "[0x31]" "[0x31]"
      "[0x33, 0x39, 0x30, 0x34, 0x33, 0x35, 0x35, 0x39, 0x30, 0x37]" "[0x61]"]
  by (simp add: line_a_def SP_def)

lemma ParseUint_1: "ParseUint [0x31] 64 = Inr 1"
  by (simp add: ParseUint_def isDigit_def cutoff64_def)

lemma ParseInt_1: "ParseInt [0x31] = Inr 1"
  by (simp add: ParseInt_def ParseUint_1)

lemma ParseUint_crc_a:
  "ParseUint [0x33, 0x39, 0x30, 0x34, 0x33, 0x35, 0x35, 0x39, 0x30, 0x37] 32 = Inr 3904355907"
  by (simp add: ParseUint_def isDigit_def cutoff64_def)

lemma line_a_ok: "snd (ReadMessage (line_a, None)) = Inr \<lparr>msgID = 1, msgBody = [0x61]\<rparr>"
  by (simp add: ReadMessage_def line_a_split ParseUint_1 ParseInt_1 ParseUint_crc_a Checksum_a
        NewMessage_def TrimRight_def CRLF_def)
     (simp add: line_a_def)

lemma FormatUint_1: "FormatUint (Suc 0) = [0x31]"
  by (simp add: FormatUint.simps)

lemma FormatUint_crc_a:
  "FormatUint 3904355907 = [0x33, 0x39, 0x30, 0x34, 0x33, 0x35, 0x35, 0x39, 0x30, 0x37]"
  by (simp add: FormatUint.simps)

lemma writeLogLine_a: "writeLogLine 1 [0x61] = line_a @ CRLF"
  by (simp add: writeLogLine_def Checksum_a FormatUint_1 FormatUint_crc_a line_a_def SP_def)

section \<open>Facts about sending\<close>

lemma sameButReaders_refl: "sameButReaders q q"
  by (simp add: sameButReaders_def)

lemma sameButReaders_trans:
  "sameButReaders q q' \<Longrightarrow> sameButReaders q' q'' \<Longrightarrow> sameButReaders q q''"
  unfolding sameButReaders_def by (metis order_trans)

lemma sendReader_same: "sameButReaders q (stateOf (sendReader q c r))"
  by (simp add: sendReader_def sameButReaders_def enqueue_def)

lemma send_same: "sameButReaders q (stateOf (send q subs m))"
  by (simp add: send_def sendReader_same)

lemma andThen_same:
  assumes "sameButReaders q (stateOf x)"
    and "\<And>q'. sameButReaders q q' \<Longrightarrow> sameButReaders q' (stateOf (f q'))"
  shows "sameButReaders q (stateOf (andThen x f))"
proof (cases x)
  case (Returns a)
  then show ?thesis using assms sameButReaders_trans by fastforce
qed (use assms in simp_all)

lemma sendMsgs_same: "sameButReaders q (stateOf (sendMsgs q subs ms))"
proof (induction ms arbitrary: q)
  case Nil
  then show ?case by (simp add: sameButReaders_refl)
next
  case (Cons m ms)
  show ?case
    unfolding sendMsgs.simps
    by (rule andThen_same) (simp_all add: send_same Cons.IH)
qed

lemma publishTo_same: "sameButReaders q (stateOf (publishTo q ss ms))"
proof (induction ss arbitrary: q)
  case Nil
  then show ?case by (simp add: sameButReaders_refl)
next
  case (Cons s ss)
  show ?case
    unfolding publishTo.simps
    by (rule andThen_same) (simp_all add: sendMsgs_same Cons.IH)
qed

lemma publishMessages_same: "sameButReaders q (stateOf (publishMessages q ms))"
  by (simp add: publishMessages_def publishTo_same)

text \<open>A full channel stays full, and a send on it waits.\<close>

lemma full_stays:
  "sameButReaders q q' \<Longrightarrow> \<not> hasRoom (readerCs q c) \<Longrightarrow> \<not> hasRoom (readerCs q' c)"
  unfolding sameButReaders_def hasRoom_def
  by (metis leD le_less_trans not_le_imp_less)

lemma sendMsgs_full:
  "\<not> hasRoom (readerCs q (readerC subs)) \<Longrightarrow> ms \<noteq> [] \<Longrightarrow> sendMsgs q subs ms = Blocks q"
  by (cases ms) (simp_all add: send_def sendReader_def)

lemma sendMsgs_never_panics: "sendMsgs q subs ms \<noteq> Panics q'"
proof (induction ms arbitrary: q)
  case Nil
  then show ?case by simp
next
  case (Cons m ms)
  then show ?case
    by (cases "send q subs m") (auto simp: send_def sendReader_def split: if_splits)
qed

lemma publishTo_full:
  assumes "s \<in> set ss" "\<not> hasRoom (readerCs q (readerC (snd s)))" "ms \<noteq> []"
  shows "blocks (publishTo q ss ms)"
  using assms
proof (induction ss arbitrary: q)
  case Nil
  then show ?case by simp
next
  case (Cons x ss)
  show ?case
  proof (cases "sendMsgs q (snd x) ms")
    case (Returns q')
    have same: "sameButReaders q q'"
      using sendMsgs_same [of q "snd x" ms] Returns by simp
    have "s \<noteq> x"
      using Cons.prems(2,3) Returns sendMsgs_full by fastforce
    then have "s \<in> set ss" using Cons.prems(1) by simp
    moreover have "\<not> hasRoom (readerCs q' (readerC (snd s)))"
      using full_stays [OF same Cons.prems(2)] .
    ultimately have "blocks (publishTo q' ss ms)"
      using Cons.IH Cons.prems(3) by blast
    then show ?thesis using Returns by simp
  next
    case (Blocks q')
    then show ?thesis by simp
  next
    case (Panics q')
    then show ?thesis using sendMsgs_never_panics by blast
  qed
qed

section \<open>Facts about the concrete reads\<close>

lemma ParseNumber_5: "ParseNumber testEnv [0x35] = Inr 5"
  by (simp add: testEnv_def ParseUint_def isDigit_def cutoff64_def)

lemma ParseNumber_1: "ParseNumber testEnv [0x31] = Inr 1"
  by (simp add: testEnv_def ParseUint_def isDigit_def cutoff64_def)

lemma parseRead_5: "parseRead testEnv cmd_read_5 = Inr (5, 1)"
  by (simp add: parseRead_def cmd_read_5_def ParseNumber_5 ParseNumber_1)

lemma parseRead_1: "parseRead testEnv cmd_read_1 = Inr (1, 1)"
  by (simp add: parseRead_def cmd_read_1_def ParseNumber_1)

lemma Range_q0: "Range (logger testEnv) (log q0) 5 (5 + 1) = Inl (OtherError ''not found'')"
  by (simp add: testEnv_def memLogger_def q0_def)

lemma FormatInt_18: "FormatInt 18 = [0x31, 0x38]"
  by (simp add: FormatInt_def FormatUint.simps)

section \<open>Facts about the effects of a read\<close>

text \<open>The handlers only add to the effects on the command.\<close>

lemma onQ_effects: "snd (stateOf (onQ f s)) = snd s"
  by (cases "f (fst s)") (simp_all add: onQ_def)

lemma emit_effects: "snd (stateOf (emit e s)) = snd s @ [e]"
  by (simp add: emit_def)

lemma andThen_effects:
  assumes "\<exists>r. snd (stateOf x) = es @ r"
    and "\<And>s. \<exists>r. snd s = es @ r \<Longrightarrow> \<exists>r. snd (stateOf (f s)) = es @ r"
  shows "\<exists>r. snd (stateOf (andThen x f)) = es @ r"
  using assms by (cases x) simp_all

lemma SendEOF_Finish_effects:
  "\<exists>r. snd s = es @ r \<Longrightarrow>
   \<exists>r. snd (stateOf (andThen (onQ (\<lambda>q. SendEOF q c) s) (emit Finish))) = es @ r"
  by (rule andThen_effects) (auto simp: onQ_effects emit_effects)

lemma doRead_loop_effects:
  "\<exists>r. snd s = es @ r \<Longrightarrow> \<exists>r. snd (stateOf (doRead_loop c its s)) = es @ r"
proof (induction its arbitrary: s)
  case Nil
  then show ?case by simp
next
  case (Cons it its)
  have first: "\<exists>r. snd (stateOf (case fst it of None \<Rightarrow> Returns s
            | Some e \<Rightarrow> andThen (onQ (\<lambda>q. SendEOF q c) s) (emit Finish))) = es @ r"
    using Cons.prems SendEOF_Finish_effects [of s es c] by (cases "fst it") simp_all
  show ?case
    unfolding doRead_loop.simps
  proof (rule andThen_effects [OF first])
    fix s1 :: "'a cfg"
    assume s1: "\<exists>r. snd s1 = es @ r"
    show "\<exists>r. snd (stateOf (andThen (onQ (\<lambda>q. sendChunk q (snd it) c) s1)
                   (\<lambda>s2. doRead_loop c its s2))) = es @ r"
      by (rule andThen_effects) (use s1 Cons.IH in \<open>auto simp: onQ_effects\<close>)
  qed
qed

lemma doRead_effects:
  "\<exists>r. snd (stateOf (doRead E q cmd startID limit))
        = [Respond ((NewResponse RespOK)\<lparr>ReaderC := Some (allocC q)\<rparr>), WaitForReady] @ r"
proof -
  let ?es = "[Respond ((NewResponse RespOK)\<lparr>ReaderC := Some (allocC q)\<rparr>), WaitForReady]"
  let ?q1 = "q\<lparr>readerCs := (readerCs q)(allocC q := makeChan 1000), allocC := Suc (allocC q)\<rparr>"
  show ?thesis
  proof (cases "if limit = 0 then Head (logger E) (log ?q1) else Inr (startID + limit)")
    case (Inl err)
    then show ?thesis by (simp add: doRead_def Let_def)
  next
    case (Inr endID)
    let ?q2 = "?q1\<lparr>subscriptions :=
                 AList.update (ConnID cmd) (newSubscription (allocC q) (Done cmd)) (subscriptions ?q1)\<rparr>"
    show ?thesis
    proof (cases "Range (logger E) (log ?q2) startID endID")
      case (Inl err)
      have "\<exists>r. snd (stateOf (andThen (onQ (\<lambda>q'. SendEOF q' (allocC q)) (?q2, ?es)) (emit Finish)))
                = ?es @ r"
        by (rule SendEOF_Finish_effects) simp
      with Inl Inr show ?thesis by (simp add: doRead_def Let_def)
    next
      case (Inr its)
      have "\<exists>r. snd (stateOf (andThen (doRead_loop (allocC q) its (?q2, ?es))
                  (\<lambda>s3. if limit \<noteq> 0
                         then andThen (onQ (\<lambda>q'. SendEOF q' (allocC q)) s3) (emit Finish)
                         else Returns s3))) = ?es @ r"
      proof (rule andThen_effects)
        show "\<exists>r. snd (stateOf (doRead_loop (allocC q) its (?q2, ?es))) = ?es @ r"
          by (rule doRead_loop_effects) simp
      next
        fix s3 :: "'a cfg"
        assume "\<exists>r. snd s3 = ?es @ r"
        then show "\<exists>r. snd (stateOf (if limit \<noteq> 0
                         then andThen (onQ (\<lambda>q'. SendEOF q' (allocC q)) s3) (emit Finish)
                         else Returns s3)) = ?es @ r"
          using SendEOF_Finish_effects [of s3 ?es "allocC q"] by (cases "limit = 0") simp_all
      qed
      with Inr \<open>(if limit = 0 then Head (logger E) (log ?q1) else Inr (startID + limit)) = Inr endID\<close>
      show ?thesis by (simp add: doRead_def Let_def)
    qed
  qed
qed

lemma handleRead_parsed_effects:
  assumes "parseRead E cmd = Inr (startID, limit)"
  shows "\<exists>r. snd (stateOf (handleRead E q cmd))
        = Respond ((NewResponse RespOK)\<lparr>ReaderC := Some (allocC q)\<rparr>) # WaitForReady # r"
  using assms doRead_effects [of E "q\<lparr>Stats := Incr (Stats q) ''total_reads''\<rparr>" cmd startID limit]
  by (simp add: handleRead_def)

section \<open>Facts about the subscription of a read\<close>

lemma sendChunk_same: "sameButReaders q (stateOf (sendChunk q lf c))"
proof (cases lf)
  case None
  then show ?thesis by (simp add: sendChunk_def sameButReaders_refl)
next
  case (Some f)
  show ?thesis
    unfolding sendChunk_def Some option.case Let_def
    by (rule andThen_same) (simp_all add: sendReader_same)
qed

lemma SendEOF_same: "sameButReaders q (stateOf (SendEOF q c))"
  by (simp add: SendEOF_def sendReader_same)

lemma onQ_same:
  assumes "\<And>q. sameButReaders q (stateOf (f q))"
  shows "sameButReaders (fst s) (fst (stateOf (onQ f s)))"
  using assms [of "fst s"] by (cases "f (fst s)") (simp_all add: onQ_def)

lemma andThen_cfg_same:
  assumes "sameButReaders q (fst (stateOf x))"
    and "\<And>s. sameButReaders q (fst s) \<Longrightarrow> sameButReaders q (fst (stateOf (f s)))"
  shows "sameButReaders q (fst (stateOf (andThen x f)))"
  using assms by (cases x) simp_all

lemma SendEOF_Finish_same:
  assumes "sameButReaders q (fst s)"
  shows "sameButReaders q (fst (stateOf (andThen (onQ (\<lambda>q. SendEOF q c) s) (emit Finish))))"
proof (rule andThen_cfg_same)
  show "sameButReaders q (fst (stateOf (onQ (\<lambda>q. SendEOF q c) s)))"
    using assms onQ_same [of "\<lambda>q. SendEOF q c" s] SendEOF_same sameButReaders_trans by blast
qed (simp add: emit_def)

lemma doRead_loop_same:
  "sameButReaders q (fst s) \<Longrightarrow> sameButReaders q (fst (stateOf (doRead_loop c its s)))"
proof (induction its arbitrary: s)
  case Nil
  then show ?case by simp
next
  case (Cons it its)
  have first: "sameButReaders q (fst (stateOf (case fst it of None \<Rightarrow> Returns s
            | Some e \<Rightarrow> andThen (onQ (\<lambda>q. SendEOF q c) s) (emit Finish))))"
    using Cons.prems SendEOF_Finish_same [of q s c] by (cases "fst it") simp_all
  show ?case
    unfolding doRead_loop.simps
  proof (rule andThen_cfg_same [OF first])
    fix s1 :: "'a cfg"
    assume s1: "sameButReaders q (fst s1)"
    show "sameButReaders q (fst (stateOf (andThen (onQ (\<lambda>q. sendChunk q (snd it) c) s1)
                   (\<lambda>s2. doRead_loop c its s2))))"
    proof (rule andThen_cfg_same)
      show "sameButReaders q (fst (stateOf (onQ (\<lambda>q. sendChunk q (snd it) c) s1)))"
        using s1 onQ_same [of "\<lambda>q. sendChunk q (snd it) c" s1] sendChunk_same
          sameButReaders_trans by blast
    qed (rule Cons.IH)
  qed
qed

text \<open>Whatever the limit, once the end of the range is known the subscription is recorded.\<close>

lemma doRead_registers:
  assumes "(if limit = 0 then Head (logger E) (log q) else Inr (startID + limit)) = Inr endID"
  shows "subscriptions (fst (stateOf (doRead E q cmd startID limit)))
         = AList.update (ConnID cmd) (newSubscription (allocC q) (Done cmd)) (subscriptions q)"
proof -
  let ?es = "[Respond ((NewResponse RespOK)\<lparr>ReaderC := Some (allocC q)\<rparr>), WaitForReady]"
  let ?q1 = "q\<lparr>readerCs := (readerCs q)(allocC q := makeChan 1000), allocC := Suc (allocC q)\<rparr>"
  let ?q2 = "?q1\<lparr>subscriptions :=
               AList.update (ConnID cmd) (newSubscription (allocC q) (Done cmd)) (subscriptions ?q1)\<rparr>"
  have hd: "(if limit = 0 then Head (logger E) (log ?q1) else Inr (startID + limit)) = Inr endID"
    using assms by (simp split: if_splits)
  have "sameButReaders ?q2 (fst (stateOf (doRead E q cmd startID limit)))"
  proof (cases "Range (logger E) (log ?q2) startID endID")
    case (Inl err)
    have "sameButReaders ?q2 (fst (stateOf
            (andThen (onQ (\<lambda>q'. SendEOF q' (allocC q)) (?q2, ?es)) (emit Finish))))"
      by (rule SendEOF_Finish_same) (simp add: sameButReaders_refl)
    with Inl hd show ?thesis by (simp add: doRead_def Let_def)
  next
    case (Inr its)
    have "sameButReaders ?q2 (fst (stateOf (andThen (doRead_loop (allocC q) its (?q2, ?es))
                  (\<lambda>s3. if limit \<noteq> 0
                         then andThen (onQ (\<lambda>q'. SendEOF q' (allocC q)) s3) (emit Finish)
                         else Returns s3))))"
    proof (rule andThen_cfg_same)
      show "sameButReaders ?q2 (fst (stateOf (doRead_loop (allocC q) its (?q2, ?es))))"
        by (rule doRead_loop_same) (simp add: sameButReaders_refl)
    next
      fix s3 :: "'a cfg"
      assume "sameButReaders ?q2 (fst s3)"
      then show "sameButReaders ?q2 (fst (stateOf (if limit \<noteq> 0
                         then andThen (onQ (\<lambda>q'. SendEOF q' (allocC q)) s3) (emit Finish)
                         else Returns s3)))"
        using SendEOF_Finish_same [of ?q2 s3 "allocC q"] by (cases "limit = 0") simp_all
    qed
    with Inr hd show ?thesis by (simp add: doRead_def Let_def)
  qed
  then show ?thesis by (simp add: sameButReaders_def)
qed

text \<open>The older handler records the subscription only when the limit is 0.\<close>

lemma doRead_logd_registers_iff:
  assumes "doRead_logd E q cmd startID limit = Returns (q', es)"
  shows "subscriptions_logd q'
         = (if limit = 0
            then AList.update (respC cmd) (newSubscription (alloc_logd q) (cmd_done cmd))
                   (subscriptions_logd q)
            else subscriptions_logd q)"
  using assms
  by (auto simp: doRead_logd_def Let_def split: prod.splits option.splits if_splits)

section \<open>Facts about what publishing delivers\<close>

text \<open>A send that returns has put its reader at the end of the channel.\<close>

lemma sendReader_Returns:
  "sendReader q c r = Returns q' \<Longrightarrow> delivered q q' (\<lambda>c'. if c' = c then [r] else [])"
  by (auto simp: sendReader_def delivered_def enqueue_def split: if_splits)

lemma sendReader_room:
  "length (buf (readerCs q c)) < cap (readerCs q c) \<Longrightarrow> \<exists>q'. sendReader q c r = Returns q'"
  by (simp add: sendReader_def hasRoom_def)

lemma delivered_trans:
  "delivered q q' d \<Longrightarrow> delivered q' q'' d' \<Longrightarrow> delivered q q'' (\<lambda>c. d c @ d' c)"
  by (simp add: delivered_def)

lemma sendMsgs_Returns:
  "sendMsgs q sb ms = Returns q' \<Longrightarrow>
   delivered q q' (\<lambda>c. if c = readerC sb then map BytesReader ms else [])"
proof (induction ms arbitrary: q)
  case Nil
  then show ?case by (simp add: delivered_def)
next
  case (Cons m ms)
  from Cons.prems obtain q1 where
    s1: "send q sb m = Returns q1" and s2: "sendMsgs q1 sb ms = Returns q'"
    by (cases "send q sb m") auto
  from s1 have "delivered q q1 (\<lambda>c. if c = readerC sb then [BytesReader m] else [])"
    using sendReader_Returns [of q "readerC sb" "BytesReader m" q1] by (simp add: send_def)
  from delivered_trans [OF this Cons.IH [OF s2]]
  show ?case by (simp add: delivered_def)
qed

text \<open>With room for all the messages, the sends return.\<close>

lemma sendMsgs_room:
  "length (buf (readerCs q (readerC sb))) + length ms \<le> cap (readerCs q (readerC sb)) \<Longrightarrow>
   \<exists>q'. sendMsgs q sb ms = Returns q'"
proof (induction ms arbitrary: q)
  case Nil
  then show ?case by simp
next
  case (Cons m ms)
  from Cons.prems obtain q1 where s1: "send q sb m = Returns q1"
    using sendReader_room [of q "readerC sb" "BytesReader m"] by (auto simp: send_def)
  then have d: "delivered q q1 (\<lambda>c. if c = readerC sb then [BytesReader m] else [])"
    using sendReader_Returns [of q "readerC sb" "BytesReader m" q1] by (simp add: send_def)
  then have "length (buf (readerCs q1 (readerC sb))) + length ms \<le> cap (readerCs q1 (readerC sb))"
    using Cons.prems by (simp add: delivered_def)
  from Cons.IH [OF this] s1 show ?case by simp
qed

lemma publishTo_Returns:
  "publishTo q ss ms = Returns q' \<Longrightarrow> delivered q q' (deliveries ss ms)"
proof (induction ss arbitrary: q)
  case Nil
  then show ?case by (simp add: delivered_def)
next
  case (Cons sb ss)
  from Cons.prems obtain q1 where
    s1: "sendMsgs q (snd sb) ms = Returns q1" and s2: "publishTo q1 ss ms = Returns q'"
    by (cases "sendMsgs q (snd sb) ms") auto
  from delivered_trans [OF sendMsgs_Returns [OF s1] Cons.IH [OF s2]]
  show ?case by (auto simp: delivered_def)
qed

lemma publishTo_room:
  "(\<forall>c. length (buf (readerCs q c)) + length (deliveries ss ms c) \<le> cap (readerCs q c)) \<Longrightarrow>
   \<exists>q'. publishTo q ss ms = Returns q'"
proof (induction ss arbitrary: q)
  case Nil
  then show ?case by simp
next
  case (Cons sb ss)
  let ?c = "readerC (snd sb)"
  from Cons.prems have "length (buf (readerCs q ?c)) + length (deliveries (sb # ss) ms ?c)
                        \<le> cap (readerCs q ?c)"
    by blast
  then have "length (buf (readerCs q ?c)) + length ms \<le> cap (readerCs q ?c)"
    by simp
  from sendMsgs_room [OF this] obtain q1 where s1: "sendMsgs q (snd sb) ms = Returns q1"
    by blast
  have d: "delivered q q1 (\<lambda>c. if c = ?c then map BytesReader ms else [])"
    by (rule sendMsgs_Returns [OF s1])
  have "\<forall>c. length (buf (readerCs q1 c)) + length (deliveries ss ms c) \<le> cap (readerCs q1 c)"
  proof
    fix c
    from Cons.prems have "length (buf (readerCs q c)) + length (deliveries (sb # ss) ms c)
                          \<le> cap (readerCs q c)"
      by blast
    with d show "length (buf (readerCs q1 c)) + length (deliveries ss ms c) \<le> cap (readerCs q1 c)"
      by (auto simp: delivered_def split: if_splits)
  qed
  from Cons.IH [OF this] s1 show ?case by simp
qed

section \<open>Facts about reading a line\<close>

text \<open>A field that parses as a number holds no line feed.\<close>

lemma not_isDigit_LF: "\<not> isDigit LF"
  by (simp add: isDigit_def LF_def)

lemma ParseUint_loop_digits:
  "ParseUint_loop mx s n = Inr v \<Longrightarrow> LF \<notin> set s"
  by (induction s arbitrary: n) (auto simp: Let_def not_isDigit_LF split: if_splits)

lemma ParseUint_no_LF: "ParseUint s bits = Inr v \<Longrightarrow> LF \<notin> set s"
  by (auto simp: ParseUint_def dest: ParseUint_loop_digits split: if_splits)

lemma ParseInt_no_LF:
  assumes "ParseInt s = Inr v"
  shows "LF \<notin> set s"
proof -
  from assms have ne: "s \<noteq> []" by (auto simp: ParseInt_def)
  let ?s1 = "if hd s = 0x2B \<or> hd s = 0x2D then tl s else s"
  from assms ne obtain un where "ParseUint ?s1 64 = Inr un"
    by (auto simp: ParseInt_def Let_def split: sum.splits error.splits if_splits)
  then have "LF \<notin> set ?s1" by (rule ParseUint_no_LF)
  moreover have "hd s = 0x2B \<or> hd s = 0x2D \<Longrightarrow> hd s \<noteq> LF"
    by (auto simp: LF_def)
  ultimately show ?thesis using ne by (cases s) (auto split: if_splits)
qed

text \<open>A line without a line feed, followed by its terminator, is read back whole.\<close>

lemma ReadLine_CRLF:
  assumes "LF \<notin> set l"
  shows "ReadLine strict (l @ CRLF @ rest) = (l, None)"
proof -
  have "\<And>x. x \<in> set l \<Longrightarrow> x \<noteq> LF" using assms by auto
  then have "takeWhile (\<lambda>b. b \<noteq> LF) (l @ CRLF @ rest)
             = l @ takeWhile (\<lambda>b. b \<noteq> LF) (CRLF @ rest)"
    by (rule takeWhile_append2)
  then have "takeWhile (\<lambda>b. b \<noteq> LF) (l @ CRLF @ rest) = l @ [CR]"
    by (simp add: CRLF_def CR_def LF_def)
  then show ?thesis
    by (simp add: ReadLine_def Let_def) (simp add: CRLF_def LF_def)
qed

text \<open>
  On the line itself: flipping a bit of the body of a line that reads as a message makes
  the checksum test fail.
\<close>

lemma ReadMessage_line_bit_flip:
  assumes ok: "snd (ReadMessage (line, None)) = Inr m"
    and parts: "SplitN line SP 4 = [p0, p1, p2, body]"
    and k: "k < 8 * length body"
  shows "snd (ReadMessage (take (length line - length body) line @ flipBit k body, None))
         = Inl errCrcChecksumMismatch"
proof -
  from SplitN4_decomp [OF parts]
  have line: "line = p0 @ SP # p1 @ SP # p2 @ SP # body"
    and nsp: "SP \<notin> set p0" "SP \<notin> set p1" "SP \<notin> set p2"
    by simp_all
  let ?body' = "flipBit k body"
  let ?line' = "p0 @ SP # p1 @ SP # p2 @ SP # ?body'"
  have "line = (p0 @ SP # p1 @ SP # p2 @ [SP]) @ body"
    by (subst line) simp
  then have "take (length line - length body) line = p0 @ SP # p1 @ SP # p2 @ [SP]"
    by (metis append_eq_conv_conj length_append add_diff_cancel_right')
  then have pre: "take (length line - length body) line @ ?body' = ?line'"
    by simp
  have parts': "SplitN ?line' SP 4 = [p0, p1, p2, ?body']"
    using nsp by (rule SplitN4_comp)
  have noteof: "?line' \<noteq> [0x2B, 0x45, 0x4F, 0x46]"
  proof
    assume "?line' = [0x2B, 0x45, 0x4F, 0x46]"
    then have "SP \<in> set [0x2B, 0x45, 0x4F, 0x46 :: byte]"
      by (metis in_set_conv_decomp)
    then show False by (simp add: SP_def)
  qed
  from ok parts obtain i bodylen checksum where
    p0: "ParseUint p0 64 = Inr i" and p1: "ParseInt p1 = Inr bodylen"
    and p2: "ParseUint p2 32 = Inr checksum"
    and len: "bodylen = int (length body)"
    and crc: "Checksum body crcTable = of_nat checksum"
    by (auto simp: ReadMessage_def Let_def split: if_splits sum.splits)
  have crc': "Checksum ?body' crcTable \<noteq> of_nat checksum"
    using Checksum_flipBit [OF k] crc by simp
  show ?thesis
    unfolding pre
    using noteof parts' p0 p1 p2 len crc'
    by (simp add: ReadMessage_def Let_def length_flipBit)
qed

lemma head_no_LF:
  assumes ok: "snd (ReadMessage (line, None)) = Inr m"
    and parts: "SplitN line SP 4 = [p0, p1, p2, body]"
  shows "LF \<notin> set (take (length line - length body) line)"
proof -
  from SplitN4_decomp [OF parts]
  have line: "line = p0 @ SP # p1 @ SP # p2 @ SP # body" by simp
  then have "line = (p0 @ SP # p1 @ SP # p2 @ [SP]) @ body" by simp
  then have pre: "take (length line - length body) line = p0 @ SP # p1 @ SP # p2 @ [SP]"
    by (metis append_eq_conv_conj length_append add_diff_cancel_right')
  from ok parts obtain i bodylen checksum where
    "ParseUint p0 64 = Inr i" "ParseInt p1 = Inr bodylen" "ParseUint p2 32 = Inr checksum"
    by (auto simp: ReadMessage_def Let_def split: if_splits sum.splits)
  then have "LF \<notin> set p0" "LF \<notin> set p1" "LF \<notin> set p2"
    by (auto dest: ParseUint_no_LF ParseInt_no_LF)
  then show ?thesis unfolding pre by (simp add: SP_def LF_def)
qed

text \<open>The line \<open>1 1 1141589763 J\<close>, and what bit 6 of its body does.\<close>

lemma Checksum_J: "Checksum [0x4A] crcTable = 1141589763"
  by code_simp

lemma ParseUint_crc_J:
  "ParseUint [0x31, 0x31, 0x34, 0x31, 0x35, 0x38, 0x39, 0x37, 0x36, 0x33] 32 = Inr 1141589763"
  by (simp add: ParseUint_def isDigit_def cutoff64_def)

lemma head_J_split:
  "SplitN (head_J @ bd) SP 4 =
     [[0x31], [0x31], [0x31, 0x31, 0x34, 0x31, 0x35, 0x38, 0x39, 0x37, 0x36, 0x33], bd]"
  using SplitN4_comp [of SP "[0x31]" "[0x31]"
      "[0x31, 0x31, 0x34, 0x31, 0x35, 0x38, 0x39, 0x37, 0x36, 0x33]" bd]
  by (simp add: head_J_def SP_def)

lemma head_J_not_EOF: "head_J @ bd \<noteq> [0x2B, 0x45, 0x4F, 0x46]"
  by (simp add: head_J_def)

lemma line_J_ok: "snd (ReadMessage (line_J, None)) = Inr \<lparr>msgID = 1, msgBody = [0x4A]\<rparr>"
  by (simp add: ReadMessage_def line_J_def head_J_split head_J_not_EOF ParseUint_1 ParseInt_1
      ParseUint_crc_J Checksum_J NewMessage_def TrimRight_def CRLF_def)

lemma flip_J: "flipBit 6 [0x4A] = [LF]"
  by (simp add: flipBit_def LF_def)

lemma ReadLine_J: "ReadLine strict (line_J @ CRLF) = (line_J, None)"
  using ReadLine_CRLF [of line_J strict "[]"] by (simp add: line_J_def head_J_def LF_def)

lemma ReadLine_J_flipped:
  "ReadLine strict (head_J @ flipBit 6 [0x4A] @ CRLF)
     = (if strict then ([], Some (OtherError ''line terminator'')) else (head_J, None))"
  by (simp add: flip_J ReadLine_def Let_def) (simp add: head_J_def LF_def CR_def CRLF_def)

section \<open>Facts about the store\<close>

lemma retain_last: "ps \<noteq> [] \<Longrightarrow> retain mx ps \<noteq> [] \<and> last (retain mx ps) = last ps"
  by (induction mx ps rule: retain.induct) auto

lemma headOffset_retain: "ps \<noteq> [] \<Longrightarrow> headOffset (retain mx ps) = headOffset ps"
  using retain_last [of ps mx] by (simp add: headOffset_def)

text \<open>An append returns the head, and moves the head by the length of what it wrote.\<close>

lemma store_append_head:
  assumes "store_append conf ioErr ps w = Inr (ps', off)"
  shows "off = headOffset ps \<and> headOffset ps' = headOffset ps + length w"
proof (cases ioErr)
  case (Some e)
  with assms show ?thesis by (simp add: store_append_def)
next
  case None
  show ?thesis
  proof (cases "ps = []")
    case True
    with assms None show ?thesis by (auto simp: store_append_def headOffset_def)
  next
    case False
    show ?thesis
    proof (cases "length (partBytes (last ps)) + length w > PartitionSize conf")
      case True
      with assms None False
      have "off = headOffset ps"
        and "ps' = retain (MaxPartitions conf) (ps @ [\<lparr>partStart = headOffset ps, partBytes = w\<rparr>])"
        by (auto simp: store_append_def Let_def)
      then show ?thesis
        using headOffset_retain [of "ps @ [\<lparr>partStart = headOffset ps, partBytes = w\<rparr>]"
            "MaxPartitions conf"]
        by (simp add: headOffset_def)
    next
      case nofit: False
      with assms None False
      have "off = headOffset ps"
        and "ps' = butlast ps @ [(last ps)\<lparr>partBytes := partBytes (last ps) @ w\<rparr>]"
        by (auto simp: store_append_def Let_def)
      then show ?thesis using False by (simp add: headOffset_def)
    qed
  qed
qed

lemma handleBatch_OK:
  assumes "handleBatch conf expired ioErr tq bt = (tq', sig, Some a)" "ackStatus a = RespOK"
  shows "ackOffset a = headOffset (tqParts tq) \<and>
         headOffset (tqParts tq') = headOffset (tqParts tq) + length (batchWire bt)"
proof -
  from assms obtain r where
    ap: "store_append conf ioErr (tqParts tq) (batchWire bt) = Inr r"
    and a: "ackOffset a = snd r" and tq': "tqParts tq' = fst r"
    by (auto simp: handleBatch_def Let_def split: if_splits sum.splits)
  from store_append_head [of conf ioErr "tqParts tq" "batchWire bt" "fst r" "snd r"] ap
  show ?thesis using a tq' by simp
qed

text \<open>A batch that is not answered \<open>OK\<close> leaves the partitions as they were.\<close>

lemma handleBatch_not_OK:
  assumes "handleBatch conf expired ioErr tq bt = (tq', sg, r)" "\<not> answeredOK r"
  shows "tqParts tq' = tqParts tq"
  using assms
  by (auto simp: handleBatch_def Let_def split: if_splits sum.splits)

lemma handleBatches_not_OK:
  "handleBatches conf tq rqs = (tq', rs) \<Longrightarrow> list_all (\<lambda>r. \<not> answeredOK r) rs
     \<Longrightarrow> tqParts tq' = tqParts tq"
proof (induction rqs arbitrary: tq rs)
  case Nil
  then show ?case by simp
next
  case (Cons rq rqs)
  let ?r = "handleBatch conf (fst rq) (fst (snd rq)) tq (snd (snd rq))"
  let ?rest = "handleBatches conf (fst ?r) rqs"
  from Cons.prems(1) have tq': "fst ?rest = tq'" and rs: "rs = snd (snd ?r) # snd ?rest"
    by (auto simp: Let_def)
  from Cons.prems(2) rs have h: "\<not> answeredOK (snd (snd ?r))"
    and t: "list_all (\<lambda>r. \<not> answeredOK r) (snd ?rest)"
    by simp_all
  have "?r = (fst ?r, fst (snd ?r), snd (snd ?r))" by simp
  from handleBatch_not_OK [OF this h] have "tqParts (fst ?r) = tqParts tq" .
  moreover
  have "?rest = (tq', snd ?rest)" using tq' by (metis prod.collapse)
  from Cons.IH [OF this t] have "tqParts tq' = tqParts (fst ?r)" .
  ultimately show ?case by simp
qed

text \<open>The batch of the one message \<open>hello\<close>: its checksum, its validity and its length.\<close>

lemma Checksum_hello:
  "Checksum [0x4D, 0x53, 0x47, 0x20, 0x35, 0x0D, 0x0A, 0x68, 0x65, 0x6C, 0x6C, 0x6F, 0x0D, 0x0A]
     crcTable = 1680380747"
proof -
  have s1: "updateByte crcTable (- 1) 77 = 630205791"
    by code_simp
  have s2: "updateByte crcTable 630205791 83 = 160685062"
    by code_simp
  have s3: "updateByte crcTable 160685062 71 = 30597850"
    by code_simp
  have s4: "updateByte crcTable 30597850 32 = 1567214048"
    by code_simp
  have s5: "updateByte crcTable 1567214048 53 = 4142157714"
    by code_simp
  have s6: "updateByte crcTable 4142157714 13 = 1615227546"
    by code_simp
  have s7: "updateByte crcTable 1615227546 10 = 4033860910"
    by code_simp
  have s8: "updateByte crcTable 4033860910 104 = 2672790384"
    by code_simp
  have s9: "updateByte crcTable 2672790384 101 = 1833085792"
    by code_simp
  have s10: "updateByte crcTable 1833085792 108 = 165351040"
    by code_simp
  have s11: "updateByte crcTable 165351040 108 = 2847241565"
    by code_simp
  have s12: "updateByte crcTable 2847241565 111 = 3363759349"
    by code_simp
  have s13: "updateByte crcTable 3363759349 13 = 3014526154"
    by code_simp
  have s14: "updateByte crcTable 3014526154 10 = 2614586548"
    by code_simp
  have fin: "NOT (2614586548 :: uint32) = 1680380747"
    by code_simp
  show ?thesis
    by (simp add: Checksum_def simpleUpdate_def s1 s2 s3 s4 s5 s6 s7 s8 s9 s10 s11 s12 s13 s14 fin)
qed

lemma FormatUint_5: "FormatUint (Suc (Suc (Suc (Suc (Suc 0))))) = [0x35]"
  by (simp add: FormatUint.simps)

lemma batchBody_hello:
  "batchBody batch_hello
     = [0x4D, 0x53, 0x47, 0x20, 0x35, 0x0D, 0x0A, 0x68, 0x65, 0x6C, 0x6C, 0x6F, 0x0D, 0x0A]"
  by (simp add: batchBody_def batch_hello_def msgFrame_def FormatUint_5 CRLF_def)

lemma validTopic_t: "validTopic ''t''"
  by (simp add: validTopic_def topicChar_def)

lemma validBatch_hello: "validBatch batch_hello"
  unfolding validBatch_def batchBody_hello Checksum_hello
  by (simp add: batch_hello_def validTopic_t)

lemma FormatUint_14: "FormatUint 14 = [0x31, 0x34]"
  by (simp add: FormatUint.simps)

lemma FormatUint_crc_hello:
  "FormatUint 1680380747 = [0x31, 0x36, 0x38, 0x30, 0x33, 0x38, 0x30, 0x37, 0x34, 0x37]"
  by (simp add: FormatUint.simps)

lemma length_batchWire_hello: "length (batchWire batch_hello) = 41"
  unfolding batchWire_def batchBody_hello
  by (simp add: batch_hello_def bytesOfString_def FormatUint_1 FormatUint_14
      FormatUint_crc_hello CRLF_def)

section \<open>The claims\<close>

subsection \<open>Rejected writes\<close>

text \<open>
  Claim C1. A message-write command that is rejected, with \<open>CLIENT_ERR\<close> for an empty
  message among its arguments or with \<open>ERR\<close> for a write that fails, is to leave the
  log unchanged. The handler writes the arguments one by one and stops at the first
  that is empty or whose write fails, so the messages before it stay written: on the
  empty log, the command with the arguments \<open>a\<close> and the empty message is answered
  \<open>CLIENT_ERR\<close> and leaves the line of \<open>a\<close> in the log with the log's id set to 1; the
  command with the arguments \<open>a\<close> and \<open>a\<close>, when the second write fails, is answered
  \<open>ERR\<close> and leaves the line of the first in the log. The queue's current id is the
  same as before in both.
\<close>

theorem rejected_write_leaves_bytes:
  "handleMsg testEnv q0 \<lparr>Name = CmdMessage, Args = [[0x61], []], ConnID = ''c1'', Done = 0\<rparr>
     = Returns (q0\<lparr>log := \<lparr>mlData = [line_a @ CRLF], mlID = 1, mlRoom = 0\<rparr>\<rparr>,
                [Respond \<lparr>Status = RespErrClient, ID = 0, Body = ErrRespEmptyMessage,
                          ReaderC = None\<rparr>]) \<and>
   handleMsg testEnv q0 \<lparr>Name = CmdMessage, Args = [[0x61], [0x61]], ConnID = ''c1'', Done = 0\<rparr>
     = Returns (q0\<lparr>log := \<lparr>mlData = [line_a @ CRLF], mlID = 2, mlRoom = 0\<rparr>\<rparr>,
                [Respond \<lparr>Status = RespErr, ID = 0, Body = NoBody, ReaderC = None\<rparr>]) \<and>
   mlData (log q0) = []"
  by (simp add: handleMsg_def q0_def testEnv_def memLogger_def writeLogLine_a
      NewClientErrResponse_def NewResponse_def)

subsection \<open>Offsets of successive batches\<close>

text \<open>
  Claim C2. For any two successive \<open>BATCH\<close> commands that the same topic queue answers
  \<open>OK\<close>, with offsets \<open>o1\<close> and \<open>o2\<close>, \<open>o2\<close> is \<open>o1\<close> plus the length in bytes of the
  wire form of the first batch. Successive are two batches answered \<open>OK\<close> with, between
  them, only batches that are not. The queue and its store are those of the spec.
\<close>

theorem batch_offsets_successive:
  assumes "handleBatch conf x1 io1 tq bt1 = (tq1, sig1, Some a1)" "ackStatus a1 = RespOK"
    and "handleBatches conf tq1 mid = (tqm, rs)" "list_all (\<lambda>r. \<not> answeredOK r) rs"
    and "handleBatch conf x2 io2 tqm bt2 = (tq2, sig2, Some a2)" "ackStatus a2 = RespOK"
  shows "ackOffset a2 = ackOffset a1 + length (batchWire bt1)"
  using handleBatch_OK [OF assms(1,2)] handleBatch_OK [OF assms(5,6)]
    handleBatches_not_OK [OF assms(3,4)]
  by simp

theorem batch_offsets_successive_witness:
  "handleBatch conf64 False None tq0 batch_hello
     = (tq0\<lparr>tqParts := [\<lparr>partStart = 0, partBytes = batchWire batch_hello\<rparr>]\<rparr>, [],
        Some \<lparr>ackStatus = RespOK, ackOffset = 0, ackBatches = 1\<rparr>) \<and>
   handleBatches conf64 (tq0\<lparr>tqParts := [\<lparr>partStart = 0, partBytes = batchWire batch_hello\<rparr>]\<rparr>)
       [(True, None, batch_hello), (False, None, batch_hello\<lparr>batchMsgs := []\<rparr>)]
     = (tq0\<lparr>tqParts := [\<lparr>partStart = 0, partBytes = batchWire batch_hello\<rparr>]\<rparr>,
        [Some \<lparr>ackStatus = RespErr, ackOffset = 0, ackBatches = 0\<rparr>,
         Some \<lparr>ackStatus = RespErrClient, ackOffset = 0, ackBatches = 0\<rparr>]) \<and>
   handleBatch conf64 False None
       (tq0\<lparr>tqParts := [\<lparr>partStart = 0, partBytes = batchWire batch_hello\<rparr>]\<rparr>) batch_hello
     = (tq0\<lparr>tqParts := [\<lparr>partStart = 0, partBytes = batchWire batch_hello\<rparr>,
                          \<lparr>partStart = 41, partBytes = batchWire batch_hello\<rparr>]\<rparr>, [],
        Some \<lparr>ackStatus = RespOK, ackOffset = 41, ackBatches = 1\<rparr>) \<and>
   (41 :: nat) = 0 + length (batchWire batch_hello)"
proof -
  let ?p0 = "\<lparr>partStart = 0, partBytes = batchWire batch_hello\<rparr>"
  let ?p1 = "\<lparr>partStart = 41, partBytes = batchWire batch_hello\<rparr>"
  let ?a1 = "\<lparr>ackStatus = RespOK, ackOffset = 0, ackBatches = 1\<rparr>"
  let ?a2 = "\<lparr>ackStatus = RespOK, ackOffset = 41, ackBatches = 1\<rparr>"
  let ?rs = "[Some \<lparr>ackStatus = RespErr, ackOffset = 0, ackBatches = 0\<rparr>,
              Some \<lparr>ackStatus = RespErrClient, ackOffset = 0, ackBatches = 0\<rparr>]"
  have r1: "handleBatch conf64 False None tq0 batch_hello
            = (tq0\<lparr>tqParts := [?p0]\<rparr>, [], Some ?a1)"
    by (simp add: handleBatch_def validBatch_hello store_append_def headOffset_def tq0_def)
  have rm: "handleBatches conf64 (tq0\<lparr>tqParts := [?p0]\<rparr>)
              [(True, None, batch_hello), (False, None, batch_hello\<lparr>batchMsgs := []\<rparr>)]
            = (tq0\<lparr>tqParts := [?p0]\<rparr>, ?rs)"
    by (simp add: handleBatch_def validBatch_def tq0_def Let_def)
  have no: "list_all (\<lambda>r. \<not> answeredOK r) ?rs"
    by simp
  have r2: "handleBatch conf64 False None (tq0\<lparr>tqParts := [?p0]\<rparr>) batch_hello
            = (tq0\<lparr>tqParts := [?p0, ?p1]\<rparr>, [], Some ?a2)"
    by (simp add: handleBatch_def validBatch_hello store_append_def headOffset_def tq0_def
        conf64_def length_batchWire_hello)
  from batch_offsets_successive [OF r1 _ rm no r2]
  have "(41 :: nat) = 0 + length (batchWire batch_hello)"
    by simp
  with r1 rm r2 show ?thesis by simp
qed

subsection \<open>A read whose start is not in the log\<close>

text \<open>
  Claim C3, as the claim has it: a read whose start cannot be located is answered
  \<open>CLIENT_ERR\<close>. The handler responds \<open>OK\<close> before it asks the logger for the range: on
  the empty log, the read of one message from id 5 is answered \<open>OK\<close> with a reader
  channel, on which the end of the stream is then sent.
\<close>

theorem read_miss_counterexample:
  "handleRead testEnv q0 cmd_read_5
     = Returns (q0\<lparr>subscriptions := [(''c1'', \<lparr>readerC = 0, doneC = 7\<rparr>)],
                   Stats := Incr (Stats q0) ''total_reads'',
                   readerCs := (readerCs q0)(0 := \<lparr>buf = [BytesReader EOFLine], cap = 1000\<rparr>),
                   allocC := 1\<rparr>,
                [Respond \<lparr>Status = RespOK, ID = 0, Body = NoBody, ReaderC = Some 0\<rparr>,
                 WaitForReady, Finish]) \<and>
   Range (logger testEnv) (log q0) 5 (5 + 1) = Inl (OtherError ''not found'') \<and>
   RespOK \<noteq> RespErrClient"
  apply (simp add: Range_q0)
  apply (simp add: handleRead_def parseRead_5 doRead_def Let_def)
  apply (simp add: q0_def testEnv_def memLogger_def cmd_read_5_def NewResponse_def
      newSubscription_def onQ_def emit_def SendEOF_def sendReader_def hasRoom_def makeChan_def
      enqueue_def)
  done

text \<open>
  Claim C3, amended. For a read command whose two arguments parse, the response
  delivered is \<open>OK\<close> with a new reader channel, whatever the logger answers afterwards.
  When the logger fails to give the range from the start id (to the head, which the
  logger gives, when the limit is 0, and to start plus limit otherwise), the handler
  returns, and its effects on the command are the \<open>OK\<close> response, the wait for the
  ready signal and the finish of the command, in this order; the new reader channel then
  holds the end of the stream and nothing else, and the log and the current id are those
  of before. \<open>CLIENT_ERR\<close> is the answer to a read whose arguments do not parse.
\<close>

theorem read_miss_responds_OK:
  "(parseRead E cmd = Inr (startID, limit) \<longrightarrow>
      (\<exists>r. snd (stateOf (handleRead E q cmd))
            = Respond ((NewResponse RespOK)\<lparr>ReaderC := Some (allocC q)\<rparr>) # WaitForReady # r) \<and>
      Status ((NewResponse RespOK)\<lparr>ReaderC := Some (allocC q)\<rparr>) = RespOK) \<and>
   (parseRead E cmd = Inr (startID, limit) \<and>
    (if limit = 0 then Head (logger E) (log q) else Inr (startID + limit)) = Inr endID \<and>
    Range (logger E) (log q) startID endID = Inl err \<longrightarrow>
      (\<exists>q'. handleRead E q cmd
             = Returns (q', [Respond ((NewResponse RespOK)\<lparr>ReaderC := Some (allocC q)\<rparr>),
                             WaitForReady, Finish]) \<and>
            readerCs q' (allocC q) = \<lparr>buf = [BytesReader EOFLine], cap = 1000\<rparr> \<and>
            log q' = log q \<and> currID q' = currID q)) \<and>
   (parseRead E cmd = Inl e \<longrightarrow>
      handleRead E q cmd = Returns (q, [Respond (NewClientErrResponse ErrRespInvalid)]) \<and>
      Status (NewClientErrResponse ErrRespInvalid) = RespErrClient)"
proof (intro conjI impI)
  assume "parseRead E cmd = Inr (startID, limit)"
  then show "\<exists>r. snd (stateOf (handleRead E q cmd))
            = Respond ((NewResponse RespOK)\<lparr>ReaderC := Some (allocC q)\<rparr>) # WaitForReady # r"
    by (rule handleRead_parsed_effects)
next
  show "Status ((NewResponse RespOK)\<lparr>ReaderC := Some (allocC q)\<rparr>) = RespOK"
    by (simp add: NewResponse_def)
next
  assume a: "parseRead E cmd = Inr (startID, limit) \<and>
    (if limit = 0 then Head (logger E) (log q) else Inr (startID + limit)) = Inr endID \<and>
    Range (logger E) (log q) startID endID = Inl err"
  show "\<exists>q'. handleRead E q cmd
             = Returns (q', [Respond ((NewResponse RespOK)\<lparr>ReaderC := Some (allocC q)\<rparr>),
                             WaitForReady, Finish]) \<and>
            readerCs q' (allocC q) = \<lparr>buf = [BytesReader EOFLine], cap = 1000\<rparr> \<and>
            log q' = log q \<and> currID q' = currID q"
  proof (cases "limit = 0")
    case True
    with a have "Head (logger E) (log q) = Inr endID" by simp
    with True a show ?thesis
      by (simp add: handleRead_def doRead_def Let_def onQ_def emit_def SendEOF_def
          sendReader_def hasRoom_def makeChan_def enqueue_def NewResponse_def)
  next
    case False
    with a have "endID = startID + limit" by simp
    with False a show ?thesis
      by (simp add: handleRead_def doRead_def Let_def onQ_def emit_def SendEOF_def
          sendReader_def hasRoom_def makeChan_def enqueue_def NewResponse_def)
  qed
next
  assume "parseRead E cmd = Inl e"
  then show "handleRead E q cmd = Returns (q, [Respond (NewClientErrResponse ErrRespInvalid)])"
    by (simp add: handleRead_def)
next
  show "Status (NewClientErrResponse ErrRespInvalid) = RespErrClient"
    by (simp add: NewClientErrResponse_def)
qed

theorem read_miss_responds_OK_witness:
  "parseRead testEnv cmd_read_5 = Inr (5, 1) \<and>
   (if (1 :: uint64) = 0 then Head (logger testEnv) (log q0) else Inr (5 + 1)) = Inr 6 \<and>
   Range (logger testEnv) (log q0) 5 6 = Inl (OtherError ''not found'') \<and>
   (\<exists>q'. handleRead testEnv q0 cmd_read_5
          = Returns (q', [Respond ((NewResponse RespOK)\<lparr>ReaderC := Some (allocC q0)\<rparr>),
                          WaitForReady, Finish])) \<and>
   parseRead testEnv (cmd_read_5\<lparr>Args := []\<rparr>) = Inl errInvalidFormat \<and>
   handleRead testEnv q0 (cmd_read_5\<lparr>Args := []\<rparr>)
     = Returns (q0, [Respond (NewClientErrResponse ErrRespInvalid)])"
proof -
  have p: "parseRead testEnv (cmd_read_5\<lparr>Args := []\<rparr>) = Inl errInvalidFormat"
    by (simp add: parseRead_def)
  from read_miss_responds_OK [of testEnv cmd_read_5 5 1 q0 6 "OtherError ''not found''"]
    parseRead_5 Range_q0
  have "\<exists>q'. handleRead testEnv q0 cmd_read_5
          = Returns (q', [Respond ((NewResponse RespOK)\<lparr>ReaderC := Some (allocC q0)\<rparr>),
                          WaitForReady, Finish])"
    by auto
  moreover
  from read_miss_responds_OK [of testEnv "cmd_read_5\<lparr>Args := []\<rparr>" 5 1 q0 6 "OtherError ''not found''"
      errInvalidFormat] p
  have "handleRead testEnv q0 (cmd_read_5\<lparr>Args := []\<rparr>)
     = Returns (q0, [Respond (NewClientErrResponse ErrRespInvalid)])"
    by simp
  ultimately show ?thesis using parseRead_5 Range_q0 p by simp
qed

subsection \<open>The subscription of a read\<close>

text \<open>
  Claim C4. The read handler is to register a subscription for the connection only when
  the limit is 0. \<open>doRead\<close> registers it whatever the limit (\<open>doRead_registers\<close>),
  where the older handler registers it only for the limit 0
  (\<open>doRead_logd_registers_iff\<close>): on the log that holds message 1, the read of one
  message from id 1 sends the chunk and the end of the stream on the reader channel and
  finishes the command, and the queue, which had no subscription, has the subscription
  of the connection afterwards.
\<close>

theorem bounded_read_keeps_subscription:
  "parseRead testEnv cmd_read_1 = Inr (1, 1) \<and>
   subscriptions q1 = [] \<and>
   handleRead testEnv q1 cmd_read_1
     = Returns (q1\<lparr>subscriptions := [(''c1'', \<lparr>readerC = 0, doneC = 7\<rparr>)],
                   Stats := Incr (Stats q1) ''total_reads'',
                   readerCs := (readerCs q1)
                     (0 := \<lparr>buf = [BytesReader [0x2B, 0x31, 0x38, 0x0D, 0x0A],
                                   LimitReader ''log.0'' 18, BytesReader EOFLine],
                            cap = 1000\<rparr>),
                   allocC := 1\<rparr>,
                [Respond \<lparr>Status = RespOK, ID = 0, Body = NoBody, ReaderC = Some 0\<rparr>,
                 WaitForReady, Finish])"
  apply (simp add: parseRead_1)
  apply (rule conjI)
   apply (simp add: q1_def q0_def)
  apply (simp add: handleRead_def parseRead_1 doRead_def Let_def)
  apply (simp add: q1_def q0_def testEnv_def memLogger_def cmd_read_1_def NewResponse_def
      newSubscription_def onQ_def emit_def SendEOF_def sendReader_def hasRoom_def makeChan_def
      enqueue_def sendChunk_def writeLogLine_a line_a_def CRLF_def FormatInt_18 Let_def)
  done

subsection \<open>Publishing to subscribers\<close>

text \<open>
  Claim C5, as the claim has it: publishing never blocks the event queue; a subscriber
  whose channel is full is dropped and its done channel signalled. The send is a plain
  channel send: with one subscriber whose reader channel holds as many readers as its
  capacity, publishing one message waits at the send, with the subscription still there
  and nothing sent on the done channel.
\<close>

theorem publish_full_counterexample:
  "publishMessages qFull [[0x61]] = Blocks qFull \<and>
   subscriptions qFull = [(''c1'', \<lparr>readerC = 0, doneC = 0\<rparr>)] \<and>
   length (buf (readerCs qFull 0)) = cap (readerCs qFull 0) \<and>
   buf (doneCs qFull 0) = []"
  by (simp add: publishMessages_def qFull_def q0_def send_def sendReader_def hasRoom_def
      makeChan_def)

text \<open>
  Claim C5, amended. Publishing sends each message, in order, on the reader channel of
  every subscriber: when it returns, each reader channel holds, after what it held, the
  messages in order, once for each subscription that has it; and it returns whenever
  every reader channel has room for what is sent on it. Publishing never removes a
  subscription and never sends on a done channel, however it ends.
\<close>

theorem publish_delivers:
  "subscriptions (stateOf (publishMessages q ms)) = subscriptions q \<and>
   doneCs (stateOf (publishMessages q ms)) = doneCs q \<and>
   (publishMessages q ms = Returns q' \<longrightarrow>
      (\<forall>c. buf (readerCs q' c) = buf (readerCs q c) @ deliveries (subscriptions q) ms c)) \<and>
   ((\<forall>c. length (buf (readerCs q c)) + length (deliveries (subscriptions q) ms c)
          \<le> cap (readerCs q c))
      \<longrightarrow> (\<exists>q''. publishMessages q ms = Returns q''))"
  using publishMessages_same [of q ms] publishTo_Returns [of q "subscriptions q" ms q']
    publishTo_room [of q "subscriptions q" ms]
  by (auto simp: sameButReaders_def publishMessages_def delivered_def)

theorem publish_delivers_witness:
  "(\<forall>c. length (buf (readerCs qSub c)) + length (deliveries (subscriptions qSub) [[0x61]] c)
        \<le> cap (readerCs qSub c)) \<and>
   publishMessages qSub [[0x61]]
     = Returns (qSub\<lparr>readerCs := (readerCs qSub)(0 := \<lparr>buf = [BytesReader [0x61]], cap = 1000\<rparr>)\<rparr>) \<and>
   buf (readerCs (qSub\<lparr>readerCs := (readerCs qSub)(0 := \<lparr>buf = [BytesReader [0x61]], cap = 1000\<rparr>)\<rparr>) 0)
     = buf (readerCs qSub 0) @ deliveries (subscriptions qSub) [[0x61]] 0"
proof -
  let ?q' = "qSub\<lparr>readerCs := (readerCs qSub)(0 := \<lparr>buf = [BytesReader [0x61]], cap = 1000\<rparr>)\<rparr>"
  have room: "\<forall>c. length (buf (readerCs qSub c)) + length (deliveries (subscriptions qSub) [[0x61]] c)
        \<le> cap (readerCs qSub c)"
    by (simp add: qSub_def q0_def makeChan_def)
  have run: "publishMessages qSub [[0x61]] = Returns ?q'"
    by (simp add: publishMessages_def qSub_def q0_def send_def sendReader_def hasRoom_def
        makeChan_def enqueue_def)
  from publish_delivers [of qSub "[[0x61]]" ?q'] run
  have "buf (readerCs ?q' 0) = buf (readerCs qSub 0) @ deliveries (subscriptions qSub) [[0x61]] 0"
    by blast
  with room run show ?thesis by blast
qed

subsection \<open>The checksum of a message line\<close>

text \<open>
  Claim C6, as the claim has it: flipping any single bit of the body of a line that
  reads as a message makes the read fail with \<open>errCrcChecksumMismatch\<close>. A flip can
  make a line feed: in the line \<open>1 1 1141589763 J\<close>, which reads as message 1, bit 6
  of the body turns \<open>J\<close> into a line feed. The line then ends before its body, and the
  read fails with the error of the line terminator or, where the line is taken to end
  at the line feed, with \<open>errInvalidBodyLength\<close>: the length is tested before the
  checksum.
\<close>

theorem bit_flip_line_feed_counterexample:
  "snd (ReadMessage (ReadLine True (line_J @ CRLF))) = Inr \<lparr>msgID = 1, msgBody = [0x4A]\<rparr> \<and>
   snd (ReadMessage (ReadLine False (line_J @ CRLF))) = Inr \<lparr>msgID = 1, msgBody = [0x4A]\<rparr> \<and>
   line_J = head_J @ [0x4A] \<and>
   snd (ReadMessage (ReadLine True (head_J @ flipBit 6 [0x4A] @ CRLF)))
     = Inl (OtherError ''line terminator'') \<and>
   snd (ReadMessage (ReadLine False (head_J @ flipBit 6 [0x4A] @ CRLF)))
     = Inl errInvalidBodyLength"
  apply (simp add: ReadLine_J line_J_ok ReadLine_J_flipped)
  apply (simp add: line_J_def ReadMessage_def)
  using head_J_split [of "[]"] head_J_not_EOF [of "[]"]
  apply (simp add: ParseUint_1 ParseInt_1 ParseUint_crc_J)
  done

text \<open>
  Claim C6, amended. Take a line that \<open>ReadMessage\<close> reads as a message: four fields
  separated by spaces, of which the last is the body, with an id, the length of the body
  and the checksum of the body in decimal. Flipping any single bit of the body that
  leaves the body without a line feed, the rest of the line kept as it is, makes the
  read of the line from the reader fail with \<open>errCrcChecksumMismatch\<close>, whatever follows
  the line. The checksum is the IEEE CRC-32 of the body, compared with the unsigned
  decimal integer of the line.
\<close>

theorem ReadMessage_bit_flip_stream:
  assumes ok: "snd (ReadMessage (line, None)) = Inr m"
    and parts: "SplitN line SP 4 = [p0, p1, p2, body]"
    and k: "k < 8 * length body"
    and nolf: "LF \<notin> set (flipBit k body)"
  shows "snd (ReadMessage (ReadLine strict
           (take (length line - length body) line @ flipBit k body @ CRLF @ rest)))
         = Inl errCrcChecksumMismatch"
proof -
  let ?l = "take (length line - length body) line @ flipBit k body"
  have "LF \<notin> set ?l"
    using head_no_LF [OF ok parts] nolf by simp
  then have "ReadLine strict (?l @ CRLF @ rest) = (?l, None)"
    by (rule ReadLine_CRLF)
  then show ?thesis
    using ReadMessage_line_bit_flip [OF ok parts k] by simp
qed

theorem ReadMessage_bit_flip_stream_witness:
  "snd (ReadMessage (line_a, None)) = Inr \<lparr>msgID = 1, msgBody = [0x61]\<rparr> \<and>
   SplitN line_a SP 4 =
     [[0x31], [0x31], [0x33, 0x39, 0x30, 0x34, 0x33, 0x35, 0x35, 0x39, 0x30, 0x37], [0x61]] \<and>
   (0::nat) < 8 * length [0x61 :: byte] \<and>
   LF \<notin> set (flipBit 0 [0x61]) \<and>
   snd (ReadMessage (ReadLine True
          (take (length line_a - length [0x61 :: byte]) line_a @ flipBit 0 [0x61] @ CRLF @ [])))
     = Inl errCrcChecksumMismatch"
proof -
  have nolf: "LF \<notin> set (flipBit 0 [0x61])"
    by (simp add: flipBit_def LF_def)
  have k: "(0::nat) < 8 * length [0x61 :: byte]"
    by simp
  from ReadMessage_bit_flip_stream [OF line_a_ok line_a_split k nolf, of True "[]"]
  show ?thesis using line_a_ok line_a_split nolf by simp
qed

subsection \<open>Routing of requests\<close>

text \<open>
  Claim C7. \<open>PushRequest\<close> pushes a \<open>BATCH\<close>, \<open>READ\<close> or \<open>TAIL\<close> request with a topic
  that is not empty to the queue of that topic when there is one, and leaves the map of
  queues as it is. For a \<open>BATCH\<close> to a topic without a queue, when the topic is added
  and the new queue starts, the queue with that topic, started, is stored under the
  topic and the request is pushed to it. The map of queues changes in no other case. A
  \<open>READ\<close> or \<open>TAIL\<close> for a topic without a queue, a \<open>BATCH\<close>, \<open>READ\<close> or \<open>TAIL\<close> with
  an empty topic, and every other command are pushed to the shared queue. The only
  requests not pushed to a queue are the \<open>BATCH\<close> requests for which adding the topic
  or starting its queue fails: the error is returned and no queue is stored.
\<close>

theorem PushRequest_routing:
  "(blockingReqs (ReqName req) \<and> Topic req \<noteq> [] \<and> h H (Topic req) = Some q
      \<longrightarrow> PushRequest N H req = (H, Inr (TopicQ (Topic req)))) \<and>
   (ReqName req = CmdBatch \<and> Topic req \<noteq> [] \<and> h H (Topic req) = None \<and>
    topics_add N (topics H) (Topic req) = (t', Inr tp) \<and>
    startQ N (setTopic newEventQ tp) = None
      \<longrightarrow> PushRequest N H req =
            (H\<lparr>topics := t',
               h := (h H)(Topic req \<mapsto> \<lparr>topic = Some tp, started = True\<rparr>)\<rparr>,
             Inr (TopicQ (Topic req)))) \<and>
   (h (fst (PushRequest N H req)) \<noteq> h H
      \<longrightarrow> ReqName req = CmdBatch \<and> Topic req \<noteq> [] \<and> h H (Topic req) = None \<and>
          snd (PushRequest N H req) = Inr (TopicQ (Topic req)) \<and>
          (\<exists>tp. h (fst (PushRequest N H req))
                  = (h H)(Topic req \<mapsto> \<lparr>topic = Some tp, started = True\<rparr>))) \<and>
   ((ReqName req = CmdRead \<or> ReqName req = CmdTail) \<and> h H (Topic req) = None
      \<longrightarrow> PushRequest N H req = (H, Inr AsyncQ)) \<and>
   (blockingReqs (ReqName req) \<and> Topic req = [] \<longrightarrow> PushRequest N H req = (H, Inr AsyncQ)) \<and>
   (\<not> blockingReqs (ReqName req) \<longrightarrow> PushRequest N H req = (H, Inr AsyncQ)) \<and>
   (snd (PushRequest N H req) = Inl err
      \<longrightarrow> ReqName req = CmdBatch \<and> Topic req \<noteq> [] \<and> h H (Topic req) = None \<and>
          h (fst (PushRequest N H req)) = h H \<and>
          (snd (topics_add N (topics H) (Topic req)) = Inl err \<or>
           (\<exists>tp. snd (topics_add N (topics H) (Topic req)) = Inr tp \<and>
                 startQ N (setTopic newEventQ tp) = Some err)))"
  by (auto simp: PushRequest_def pushBlockingRequest_def blockingReqs_def GoStart_def
        setTopic_def newEventQ_def Let_def
      split: option.splits sum.splits prod.splits if_splits)

theorem PushRequest_routing_witness:
  "PushRequest testHEnv (H0\<lparr>h := [''t'' \<mapsto> \<lparr>topic = Some ''t'', started = True\<rparr>]\<rparr>)
     \<lparr>ReqName = CmdRead, Topic = ''t''\<rparr>
     = (H0\<lparr>h := [''t'' \<mapsto> \<lparr>topic = Some ''t'', started = True\<rparr>]\<rparr>, Inr (TopicQ ''t'')) \<and>
   PushRequest testHEnv H0 \<lparr>ReqName = CmdBatch, Topic = ''t''\<rparr>
     = (H0\<lparr>topics := [''t''],
           h := (h H0)(''t'' \<mapsto> \<lparr>topic = Some ''t'', started = True\<rparr>)\<rparr>,
        Inr (TopicQ ''t'')) \<and>
   h (fst (PushRequest testHEnv H0 \<lparr>ReqName = CmdBatch, Topic = ''t''\<rparr>)) \<noteq> h H0 \<and>
   snd (PushRequest testHEnv H0 \<lparr>ReqName = CmdBatch, Topic = ''t''\<rparr>) = Inr (TopicQ ''t'') \<and>
   PushRequest testHEnv H0 \<lparr>ReqName = CmdTail, Topic = ''t''\<rparr> = (H0, Inr AsyncQ) \<and>
   PushRequest testHEnv H0 \<lparr>ReqName = CmdBatch, Topic = []\<rparr> = (H0, Inr AsyncQ) \<and>
   PushRequest testHEnv H0 \<lparr>ReqName = CmdPing, Topic = ''t''\<rparr> = (H0, Inr AsyncQ) \<and>
   snd (PushRequest failHEnv H0 \<lparr>ReqName = CmdBatch, Topic = ''t''\<rparr>)
     = Inl (OtherError ''topic'') \<and>
   h (fst (PushRequest failHEnv H0 \<lparr>ReqName = CmdBatch, Topic = ''t''\<rparr>)) = h H0"
proof -
  let ?qt = "\<lparr>topic = Some ''t'', started = True\<rparr>"
  let ?H1 = "H0\<lparr>h := [''t'' \<mapsto> ?qt]\<rparr>"
  let ?B = "\<lparr>ReqName = CmdBatch, Topic = ''t''\<rparr>"
  let ?e = "OtherError ''topic''"
  have a1: "PushRequest testHEnv ?H1 \<lparr>ReqName = CmdRead, Topic = ''t''\<rparr>
            = (?H1, Inr (TopicQ ''t''))"
    using PushRequest_routing
      [of "\<lparr>ReqName = CmdRead, Topic = ''t''\<rparr>" ?H1 ?qt testHEnv "[]" "''t''" ?e]
    by (simp add: blockingReqs_def)
  have a2: "PushRequest testHEnv H0 ?B
            = (H0\<lparr>topics := [''t''], h := (h H0)(''t'' \<mapsto> ?qt)\<rparr>, Inr (TopicQ ''t''))"
    using PushRequest_routing [of ?B H0 ?qt testHEnv "[''t'']" "''t''" ?e]
    by (simp add: H0_def testHEnv_def)
  have "((h H0)(''t'' \<mapsto> ?qt)) ''t'' \<noteq> h H0 ''t''"
    by (simp add: H0_def)
  then have ne: "(h H0)(''t'' \<mapsto> ?qt) \<noteq> h H0"
    by metis
  with a2 have a3: "h (fst (PushRequest testHEnv H0 ?B)) \<noteq> h H0"
    by simp
  have a4: "snd (PushRequest testHEnv H0 ?B) = Inr (TopicQ ''t'')"
    using PushRequest_routing [of ?B H0 ?qt testHEnv "[''t'']" "''t''" ?e] a3
    by simp
  have a5: "PushRequest testHEnv H0 \<lparr>ReqName = CmdTail, Topic = ''t''\<rparr> = (H0, Inr AsyncQ)"
    using PushRequest_routing
      [of "\<lparr>ReqName = CmdTail, Topic = ''t''\<rparr>" H0 ?qt testHEnv "[]" "''t''" ?e]
    by (simp add: H0_def)
  have a6: "PushRequest testHEnv H0 \<lparr>ReqName = CmdBatch, Topic = []\<rparr> = (H0, Inr AsyncQ)"
    using PushRequest_routing
      [of "\<lparr>ReqName = CmdBatch, Topic = []\<rparr>" H0 ?qt testHEnv "[]" "''t''" ?e]
    by (simp add: blockingReqs_def)
  have a7: "PushRequest testHEnv H0 \<lparr>ReqName = CmdPing, Topic = ''t''\<rparr> = (H0, Inr AsyncQ)"
    using PushRequest_routing
      [of "\<lparr>ReqName = CmdPing, Topic = ''t''\<rparr>" H0 ?qt testHEnv "[]" "''t''" ?e]
    by (simp add: blockingReqs_def)
  have a8: "snd (PushRequest failHEnv H0 ?B) = Inl ?e"
    by (simp add: PushRequest_def pushBlockingRequest_def blockingReqs_def H0_def failHEnv_def)
  have a9: "h (fst (PushRequest failHEnv H0 ?B)) = h H0"
    using PushRequest_routing [of ?B H0 ?qt failHEnv "[]" "''t''" ?e] a8
    by simp
  from a1 a2 a3 a4 a5 a6 a7 a8 a9 show ?thesis by simp
qed

subsection \<open>Commands the loop does not know\<close>

text \<open>
  Claim C8, as the claim has it: a command whose name is not one of those the loop
  dispatches on is answered with \<open>CLIENT_ERR\<close>. The loop answers it with \<open>ERR\<close>: here a
  command with a name outside the protocol.
\<close>

theorem unknown_command_counterexample:
  "dispatch testEnv q0 \<lparr>Name = CmdOther 99, Args = [], ConnID = ''c1'', Done = 0\<rparr>
     = Returns (q0, [Respond \<lparr>Status = RespErr, ID = 0, Body = NoBody, ReaderC = None\<rparr>]) \<and>
   RespErr \<noteq> RespErrClient"
  by (simp add: dispatch_def NewResponse_def)

text \<open>
  Claim C8, amended. A command whose name is not one of those the loop dispatches on
  (message, replicate, raw message, read, head, stats, ping, close, sleep, shutdown) is
  answered with the response of status \<open>ERR\<close>, and the queue is left as it was.
\<close>

theorem unknown_command_RespErr:
  "Name cmd \<notin> {CmdMessage, CmdReplicate, CmdRawMessage, CmdRead, CmdHead, CmdStats,
                 CmdPing, CmdClose, CmdSleep, CmdShutdown} \<Longrightarrow>
   dispatch E q cmd = Returns (q, [Respond (NewResponse RespErr)]) \<and>
   Status (NewResponse RespErr) = RespErr"
  by (cases "Name cmd") (auto simp: dispatch_def NewResponse_def)

theorem unknown_command_RespErr_witness:
  "Name \<lparr>Name = CmdTail, Args = [], ConnID = ''c1'', Done = 0\<rparr>
     \<notin> {CmdMessage, CmdReplicate, CmdRawMessage, CmdRead, CmdHead, CmdStats,
         CmdPing, CmdClose, CmdSleep, CmdShutdown} \<and>
   dispatch testEnv q0 \<lparr>Name = CmdTail, Args = [], ConnID = ''c1'', Done = 0\<rparr>
     = Returns (q0, [Respond (NewResponse RespErr)])"
  using unknown_command_RespErr
    [of "\<lparr>Name = CmdTail, Args = [], ConnID = ''c1'', Done = 0\<rparr>" testEnv q0]
  by simp

subsection \<open>The offset of a read response\<close>

text \<open>
  Claim C9. When the request has been sent and a response has been read without error,
  and the offset of the response differs from the offset asked for, \<open>ReadOffset\<close> fails
  with \<open>ErrInternal\<close>. When \<open>ReadOffset\<close> returns a number of batches and a scanner, the
  request was sent, a response was read without error, its offset is the offset asked
  for, and the number of batches is that of the response.
\<close>

theorem ReadOffset_offset_check:
  "(client_send N c \<lparr>Offset = offset, Messages = limit\<rparr> = (c1, n, None) \<and>
    ReadFrom N c1 = (c2, cr, m, None) \<and> respError cr = None \<and> respOffset cr \<noteq> offset
      \<longrightarrow> ReadOffset N c offset limit = (c2, Inl ErrInternal)) \<and>
   (ReadOffset N c offset limit = (c', Inr (nb, bs)) \<longrightarrow>
      (\<exists>c1 n cr m. client_send N c \<lparr>Offset = offset, Messages = limit\<rparr> = (c1, n, None) \<and>
         ReadFrom N c1 = (c', cr, m, None) \<and> respError cr = None \<and>
         respOffset cr = offset \<and> respBatches cr = nb \<and> bs = BatchScanner c'))"
  by (auto simp: ReadOffset_def readBatchResponse_def split: prod.splits option.splits if_splits)

theorem ReadOffset_offset_check_witness:
  "client_send testConn [\<lparr>respOffset = 7, respBatches = 1, respError = None\<rparr>]
     \<lparr>Offset = 5, Messages = 1\<rparr>
     = ([\<lparr>respOffset = 7, respBatches = 1, respError = None\<rparr>], 0, None) \<and>
   ReadFrom testConn [\<lparr>respOffset = 7, respBatches = 1, respError = None\<rparr>]
     = ([], \<lparr>respOffset = 7, respBatches = 1, respError = None\<rparr>, 0, None) \<and>
   ReadOffset testConn [\<lparr>respOffset = 7, respBatches = 1, respError = None\<rparr>] 5 1
     = ([], Inl ErrInternal) \<and>
   ReadOffset testConn [\<lparr>respOffset = 5, respBatches = 1, respError = None\<rparr>] 5 1
     = ([], Inr (1, BatchScanner [])) \<and>
   respOffset \<lparr>respOffset = 5, respBatches = 1, respError = None\<rparr> = 5"
proof -
  let ?r7 = "\<lparr>respOffset = 7, respBatches = 1, respError = None\<rparr>"
  let ?r5 = "\<lparr>respOffset = 5, respBatches = 1, respError = None\<rparr>"
  have s: "client_send testConn [?r7] \<lparr>Offset = 5, Messages = 1\<rparr> = ([?r7], 0, None)"
    by (simp add: client_send_def testConn_def)
  have r: "ReadFrom testConn [?r7] = ([], ?r7, 0, None)"
    by (simp add: testConn_def)
  have ok: "ReadOffset testConn [?r5] 5 1 = ([], Inr (1, BatchScanner []))"
    by (simp add: ReadOffset_def readBatchResponse_def client_send_def testConn_def)
  from ReadOffset_offset_check
    [of testConn "[?r7]" 5 1 "[?r7]" 0 "[]" ?r7 0 "[]" 1 "BatchScanner []"]
  have "ReadOffset testConn [?r7] 5 1 = ([], Inl ErrInternal)"
    using s r by simp
  then show ?thesis using s r ok by simp
qed

subsection \<open>Commands that take no arguments\<close>

text \<open>
  Claim C10. A \<open>HEAD\<close>, \<open>STATS\<close>, \<open>PING\<close> or \<open>CLOSE\<close> command that carries one or more
  arguments is answered with \<open>CLIENT_ERR\<close>, and the queue is left exactly as it was: the
  log, the subscriptions, the counters and the channels are those of before.
\<close>

theorem args_rejected_state_unchanged:
  "Name cmd \<in> {CmdHead, CmdStats, CmdPing, CmdClose} \<Longrightarrow> Args cmd \<noteq> [] \<Longrightarrow>
   dispatch E q cmd = Returns (q, [Respond (NewClientErrResponse ErrRespInvalid)]) \<and>
   Status (NewClientErrResponse ErrRespInvalid) = RespErrClient"
  by (auto simp: dispatch_def handleHead_def handleStats_def handlePing_def handleClose_def
        NewClientErrResponse_def)

theorem args_rejected_state_unchanged_witness:
  "Name \<lparr>Name = CmdClose, Args = [[0x61]], ConnID = ''c1'', Done = 0\<rparr>
     \<in> {CmdHead, CmdStats, CmdPing, CmdClose} \<and>
   Args \<lparr>Name = CmdClose, Args = [[0x61 :: byte]], ConnID = ''c1'', Done = 0\<rparr> \<noteq> [] \<and>
   dispatch testEnv qFull \<lparr>Name = CmdClose, Args = [[0x61]], ConnID = ''c1'', Done = 0\<rparr>
     = Returns (qFull, [Respond \<lparr>Status = RespErrClient, ID = 0, Body = ErrRespInvalid,
                                ReaderC = None\<rparr>])"
  using args_rejected_state_unchanged
    [of "\<lparr>Name = CmdClose, Args = [[0x61]], ConnID = ''c1'', Done = 0\<rparr>" testEnv qFull]
  by (simp add: NewClientErrResponse_def)

end
